theory Spec2Isabelle
  imports Main "HOL-Library.Multiset"
begin

section \<open>The annotation graph of \<^verbatim>\<open>helixerprep/core/handlers.py\<close>\<close>

text \<open>
  The handlers work on rows of an object-relational store: Coordinate, Feature,
  TranscribedPiece and Transcribed objects that refer to each other. Python holds
  the objects by reference and mutates them in place, so the model keeps one store
  per kind of row, a total function from the row's key to its columns, together
  with the next unused key. A reference to a row is its key. A row that has been
  committed carries its key in its \<open>id\<close> column; a row that was only constructed
  has \<open>id = None\<close>.

  The classes of the rows belong to the geenuff library. The columns below are
  the ones the handlers read or write; \<open>other_columns\<close> stands for the rest of a
  feature. Column names follow the source. \<open>start\<close>, \<open>end\<close> and \<open>id\<close> exist on
  several classes (and \<open>end\<close> is reserved), so they carry the class as a prefix;
  \<open>transcript_pieces\<close> is \<open>Transcribed.transcribed_pieces\<close>. Coordinates are never
  created or changed here, so a coordinate's \<open>id\<close> is its key.
\<close>

record Coordinate =
  seqid :: string
  coord_start :: int
  coord_end :: int

record Feature =
  feature_id :: "nat option"
  given_name :: "string option"
  feature_start :: int
  feature_end :: int
  is_plus_strand :: bool
  start_is_biological_start :: bool
  end_is_biological_end :: bool
  coordinate :: nat
  transcribed_pieces :: "nat list"
  other_columns :: "(string \<times> string) list"

record TranscribedPiece =
  piece_id :: "nat option"
  position :: int
  transcribed :: nat

text \<open>
  The batch queue \<open>core_queue\<close> holds two lists of dictionaries:
  \<open>coord_swaps\<close> with the keys \<open>feat_id\<close>, \<open>coordinate_id_new\<close> and
  \<open>piece_swaps\<close> with the keys \<open>piece_id_old\<close>, \<open>piece_id_new\<close>, \<open>feat_id\<close>,
  here tuples in that order.
\<close>

type_synonym coord_swap = "nat option \<times> nat"
type_synonym piece_swap = "nat option \<times> nat option \<times> nat option"

text \<open>
  An interval tree is kept as the list of its intervals \<open>(begin, end, data)\<close>;
  \<open>trees\<close> is the dictionary from a sequence id to its tree.
\<close>

record World =
  coordinates :: "nat \<Rightarrow> Coordinate"
  features :: "nat \<Rightarrow> Feature"
  next_feature :: nat
  pieces :: "nat \<Rightarrow> TranscribedPiece"
  next_piece :: nat
  transcript_pieces :: "nat \<Rightarrow> nat list"
  coord_swaps :: "coord_swap list"
  piece_swaps :: "piece_swap list"
  trees :: "string \<Rightarrow> (int \<times> int \<times> nat) list option"

datatype error = NoFeaturesInSliceError | AssertionError | ValueError | IndexError

text \<open>
  An exception leaves behind whatever was mutated before it was raised, and
  \<open>modify4slice\<close> goes on after catching one, so a failure carries the store.
\<close>

type_synonym 'a result = "(error \<times> World) + 'a"

subsection \<open>FeatureVsCoords\<close>

text \<open>
  The attributes of the class, \<open>strand\<close> for its \<open>is_plus_strand\<close>, and
  \<open>mk_FeatureVsCoords\<close> for its \<open>__init__\<close>.
\<close>

record FeatureVsCoords =
  feature :: Feature
  slice_coordinates :: Coordinate
  strand :: bool
  sign :: int
  feature_py_start :: int
  feature_py_end :: int

definition mk_FeatureVsCoords :: "Feature \<Rightarrow> Coordinate \<Rightarrow> bool \<Rightarrow> FeatureVsCoords" where
  "mk_FeatureVsCoords f slice_coords is_plus =
     \<lparr>feature = f, slice_coordinates = slice_coords, strand = is_plus,
      sign = (if is_plus then 1 else - 1),
      feature_py_start = (if is_plus then feature_start f else feature_end f + 1),
      feature_py_end = (if is_plus then feature_end f else feature_start f + 1)\<rparr>"

text \<open>\<open>self.feature.coordinate.seqid\<close> follows the feature's reference into the coordinate rows.\<close>

definition is_detached :: "(nat \<Rightarrow> Coordinate) \<Rightarrow> FeatureVsCoords \<Rightarrow> bool" where
  "is_detached cs p =
     (if seqid (slice_coordinates p) \<noteq> seqid (cs (coordinate (feature p))) then True
      else if strand p \<noteq> is_plus_strand (feature p) then True
      else False)"

definition is_lower :: "FeatureVsCoords \<Rightarrow> bool" where
  "is_lower p = (coord_start (slice_coordinates p) - feature_py_end p \<ge> 0)"

definition is_higher :: "FeatureVsCoords \<Rightarrow> bool" where
  "is_higher p = (feature_py_start p - coord_end (slice_coordinates p) \<ge> 0)"

definition is_upstream :: "FeatureVsCoords \<Rightarrow> bool" where
  "is_upstream p = (if strand p then is_lower p else is_higher p)"

definition is_downstream :: "FeatureVsCoords \<Rightarrow> bool" where
  "is_downstream p = (if strand p then is_higher p else is_lower p)"

definition is_contained :: "FeatureVsCoords \<Rightarrow> bool" where
  "is_contained p =
     (let start_contained = (coord_start (slice_coordinates p) \<le> feature_py_start p
                              \<and> feature_py_start p < coord_end (slice_coordinates p));
          end_contained = (coord_start (slice_coordinates p) < feature_py_end p
                            \<and> feature_py_end p \<le> coord_end (slice_coordinates p))
      in start_contained \<and> end_contained)"

definition overlaps_lower :: "FeatureVsCoords \<Rightarrow> bool" where
  "overlaps_lower p =
     (feature_py_start p < coord_start (slice_coordinates p)
      \<and> coord_start (slice_coordinates p) < feature_py_end p)"

definition overlaps_higher :: "FeatureVsCoords \<Rightarrow> bool" where
  "overlaps_higher p =
     (feature_py_start p < coord_end (slice_coordinates p)
      \<and> coord_end (slice_coordinates p) < feature_py_end p)"

definition overlaps_upstream :: "FeatureVsCoords \<Rightarrow> bool" where
  "overlaps_upstream p = (if strand p then overlaps_lower p else overlaps_higher p)"

definition overlaps_downstream :: "FeatureVsCoords \<Rightarrow> bool" where
  "overlaps_downstream p = (if strand p then overlaps_higher p else overlaps_lower p)"

text \<open>
  The \<open>if\<close>/\<open>elif\<close> chain of \<open>modify4new_slice\<close>, in its order, as the branch it
  takes; \<open>Unclassifiable\<close> is the final \<open>else\<close>.
\<close>

datatype branch =
  Detached | Upstream | OverlapsUpstream | Contained | OverlapsDownstream | Downstream
  | Unclassifiable

definition branch_taken :: "(nat \<Rightarrow> Coordinate) \<Rightarrow> FeatureVsCoords \<Rightarrow> branch" where
  "branch_taken cs position_interp =
     (if is_detached cs position_interp then Detached
      else if is_upstream position_interp then Upstream
      else if overlaps_upstream position_interp then OverlapsUpstream
      else if is_contained position_interp then Contained
      else if overlaps_downstream position_interp then OverlapsDownstream
      else if is_downstream position_interp then Downstream
      else Unclassifiable)"

text \<open>The six predicates that hold of a feature against a slice, as a list.\<close>

definition classifications :: "(nat \<Rightarrow> Coordinate) \<Rightarrow> FeatureVsCoords \<Rightarrow> branch list" where
  "classifications cs p =
     (if is_detached cs p then [Detached] else []) @
     (if is_upstream p then [Upstream] else []) @
     (if overlaps_upstream p then [OverlapsUpstream] else []) @
     (if is_contained p then [Contained] else []) @
     (if overlaps_downstream p then [OverlapsDownstream] else []) @
     (if is_downstream p then [Downstream] else [])"

subsection \<open>The session, the interval index and the batch queue\<close>

text \<open>
  \<open>session.add_all(rows); session.commit()\<close>: the store gives every row that has no
  primary key yet its own. The store's rows are keyed by the primary key, so the
  key a new row gets is the key it was constructed under.
\<close>

definition commit_feature :: "nat \<Rightarrow> World \<Rightarrow> World" where
  "commit_feature k w =
     (case feature_id (features w k) of
        None \<Rightarrow> w\<lparr>features := (features w)(k := (features w k)\<lparr>feature_id := Some k\<rparr>)\<rparr>
      | Some _ \<Rightarrow> w)"

definition commit_piece :: "nat \<Rightarrow> World \<Rightarrow> World" where
  "commit_piece k w =
     (case piece_id (pieces w k) of
        None \<Rightarrow> w\<lparr>pieces := (pieces w)(k := (pieces w k)\<lparr>piece_id := Some k\<rparr>)\<rparr>
      | Some _ \<Rightarrow> w)"

text \<open>
  \<open>FeatureHandler.load_to_intervaltree\<close>. The tree of the feature's sequence id is
  created when missing; \<open>tree[py_start:py_end] = self\<close> raises \<open>ValueError\<close> for an
  interval with \<open>py_start >= py_end\<close> (the handler prints and re-raises), and adds
  the interval unless the tree has it already.
\<close>

definition load_to_intervaltree :: "World \<Rightarrow> nat \<Rightarrow> World result" where
  "load_to_intervaltree w k =
     (let data = features w k;
          sid = seqid (coordinates w (coordinate data));
          tree = (case trees w sid of None \<Rightarrow> [] | Some tr \<Rightarrow> tr);
          w1 = w\<lparr>trees := (trees w)(sid \<mapsto> tree)\<rparr>;
          py_start = (if is_plus_strand data then feature_start data else feature_end data + 1);
          py_end = (if is_plus_strand data then feature_end data else feature_start data + 1)
      in if py_start \<ge> py_end then Inl (ValueError, w1)
         else Inr (w\<lparr>trees := (trees w)(sid \<mapsto> List.insert (py_start, py_end, k) tree)\<rparr>))"

text \<open>
  Modelled from the spec: \<open>core_queue.execute_so_far\<close>, whose class is not among the
  sources. The spec (4.5): the queue accumulates \<open>{feature_id, new_coordinate_id}\<close>
  and \<open>{feature_id, old_piece_id, new_piece_id}\<close> records without applying them;
  \<open>execute_so_far()\<close> flushes all accumulated records as a single update and clears
  the queue. A record applies to the row its \<open>feat_id\<close> names; a record without one
  (the feature was never committed) matches no row.
\<close>

definition apply_coord_swap :: "coord_swap \<Rightarrow> World \<Rightarrow> World" where
  "apply_coord_swap r w =
     (case r of
        (Some k, coordinate_id_new) \<Rightarrow>
          w\<lparr>features := (features w)(k := (features w k)\<lparr>coordinate := coordinate_id_new\<rparr>)\<rparr>
      | (None, _) \<Rightarrow> w)"

definition apply_piece_swap :: "piece_swap \<Rightarrow> World \<Rightarrow> World" where
  "apply_piece_swap r w =
     (case r of
        (Some piece_id_old, Some piece_id_new, Some k) \<Rightarrow>
          w\<lparr>features := (features w)(k := (features w k)
              \<lparr>transcribed_pieces :=
                 map (\<lambda>p. if p = piece_id_old then piece_id_new else p)
                   (transcribed_pieces (features w k))\<rparr>)\<rparr>
      | _ \<Rightarrow> w)"

definition execute_so_far :: "World \<Rightarrow> World" where
  "execute_so_far w =
     (fold apply_piece_swap (piece_swaps w) (fold apply_coord_swap (coord_swaps w) w))
       \<lparr>coord_swaps := [], piece_swaps := []\<rparr>"

subsection \<open>TranscriptTrimmer\<close>

text \<open>\<open>cached_downstream_piece\<close> is the attribute \<open>_downstream_piece\<close>.\<close>

record TranscriptTrimmer =
  transcript :: nat
  handlers :: "nat list"
  cached_downstream_piece :: "nat option"

text \<open>
  \<open>mk_new_piece\<close>. The loop reads \<open>piece.position\<close> anew in every round.
  \<open>TranscribedPiece(transcribed=..., position=...)\<close> constructs the row and, the
  relationship being two-sided, puts it at the end of the transcript's
  \<open>transcribed_pieces\<close>.
\<close>

fun increment_higher :: "nat \<Rightarrow> nat list \<Rightarrow> World \<Rightarrow> World" where
  "increment_higher piece [] w = w"
| "increment_higher piece (old_piece # rest) w =
     increment_higher piece rest
       (if position (pieces w old_piece) > position (pieces w piece)
        then w\<lparr>pieces := (pieces w)(old_piece :=
                 (pieces w old_piece)\<lparr>position := position (pieces w old_piece) + 1\<rparr>)\<rparr>
        else w)"

definition mk_new_piece :: "World \<times> TranscriptTrimmer \<Rightarrow> nat \<Rightarrow> (World \<times> TranscriptTrimmer) \<times> nat" where
  "mk_new_piece wt piece =
     (let w = fst wt; t = snd wt;
          old_pieces = transcript_pieces w (transcript t);
          w1 = increment_higher piece old_pieces w;
          new_piece = next_piece w1;
          w2 = w1\<lparr>pieces := (pieces w1)(new_piece :=
                    \<lparr>piece_id = None, position = position (pieces w1 piece) + 1,
                     transcribed = transcript t\<rparr>),
                  next_piece := Suc new_piece,
                  transcript_pieces := (transcript_pieces w1)
                    (transcript t := old_pieces @ [new_piece])\<rparr>;
          w3 = fold commit_piece (transcript_pieces w2 (transcript t) @ [new_piece]) w2
      in ((w3, t\<lparr>handlers := handlers t @ [new_piece]\<rparr>), new_piece))"

definition downstream_piece :: "World \<times> TranscriptTrimmer \<Rightarrow> nat \<Rightarrow> (World \<times> TranscriptTrimmer) \<times> nat" where
  "downstream_piece wt piece =
     (case cached_downstream_piece (snd wt) of
        None \<Rightarrow>
          (let r = mk_new_piece wt piece
           in ((fst (fst r), (snd (fst r))\<lparr>cached_downstream_piece := Some (snd r)\<rparr>), snd r))
      | Some d \<Rightarrow> (wt, d))"

text \<open>
  \<open>new_handled_data\<close> with a template, as its only caller uses it: a new row of the
  template's columns (\<open>db_attr_as_dict\<close>), overwritten by the keyword arguments,
  here the function \<open>kwargs\<close> on the columns. The row is constructed under the next
  unused key; its \<open>id\<close> column is what the keyword arguments say.
\<close>

definition new_handled_data :: "World \<Rightarrow> Feature \<Rightarrow> (Feature \<Rightarrow> Feature) \<Rightarrow> World \<times> nat" where
  "new_handled_data w template kwargs =
     (let data = next_feature w
      in (w\<lparr>features := (features w)(data := kwargs template), next_feature := Suc data\<rparr>, data))"

text \<open>\<open>swap_list_item\<close>: \<open>list.index\<close> finds the first occurrence and raises when there is none.\<close>

fun swap_list_item :: "nat list \<Rightarrow> nat \<Rightarrow> nat \<Rightarrow> nat list option" where
  "swap_list_item [] replacement_item item_to_remove = None"
| "swap_list_item (x # xs) replacement_item item_to_remove =
     (if x = item_to_remove then Some (replacement_item # xs)
      else map_option ((#) x) (swap_list_item xs replacement_item item_to_remove))"

definition down_at :: "World \<Rightarrow> nat \<Rightarrow> bool \<Rightarrow> int" where
  "down_at w new_coords is_plus =
     (if is_plus then coord_end (coordinates w new_coords)
      else coord_start (coordinates w new_coords) - 1)"

definition set_status_downstream_border ::
  "nat \<Rightarrow> nat \<Rightarrow> bool \<Rightarrow> nat \<Rightarrow> nat \<Rightarrow> nat \<Rightarrow> World \<Rightarrow> World result" where
  "set_status_downstream_border new_coords old_coords is_plus template_feature new_piece old_piece w =
     (let template = features w template_feature in
      if old_piece \<notin> set (transcribed_pieces template) then Inl (AssertionError, w)
      else
        (case swap_list_item (transcribed_pieces template) new_piece old_piece of
           None \<Rightarrow> Inl (ValueError, w)
         | Some downstream_pieces \<Rightarrow>
             (let r = new_handled_data w template
                        (\<lambda>d. d\<lparr>feature_id := None, feature_start := down_at w new_coords is_plus,
                               given_name := None, coordinate := old_coords,
                               start_is_biological_start := False,
                               transcribed_pieces := downstream_pieces\<rparr>);
                  downstream = snd r
              in case load_to_intervaltree (fst r) downstream of
                   Inl e \<Rightarrow> Inl e
                 | Inr w2 \<Rightarrow>
                     Inr (commit_feature downstream
                       (w2\<lparr>features := (features w2)(template_feature :=
                            (features w2 template_feature)
                              \<lparr>feature_end := down_at w new_coords is_plus,
                               end_is_biological_end := False,
                               coordinate := new_coords\<rparr>)\<rparr>)))))"

text \<open>
  The body of the loop of \<open>modify4new_slice\<close> works on the store, the trimmer and
  the two local variables that outlive a round.
\<close>

record Loop =
  world :: World
  trimmer :: TranscriptTrimmer
  seen_one_overlap :: bool
  piece_at_border :: "nat option"

text \<open>\<open>for f in aligned_features: self.core_queue.coord_swaps.append(...)\<close>\<close>

fun enqueue_coord_swaps :: "nat \<Rightarrow> nat list \<Rightarrow> World \<Rightarrow> World" where
  "enqueue_coord_swaps new_coords [] w = w"
| "enqueue_coord_swaps new_coords (f # rest) w =
     enqueue_coord_swaps new_coords rest
       (w\<lparr>coord_swaps := coord_swaps w @ [(feature_id (features w f), new_coords)]\<rparr>)"

text \<open>\<open>for feature in aligned_features: self.set_status_downstream_border(...)\<close>\<close>

fun split_at_border :: "nat \<Rightarrow> nat \<Rightarrow> bool \<Rightarrow> nat \<Rightarrow> nat \<Rightarrow> nat list \<Rightarrow> World \<Rightarrow> World result" where
  "split_at_border new_coords old_coords is_plus new_piece old_piece [] w = Inr w"
| "split_at_border new_coords old_coords is_plus new_piece old_piece (f # rest) w =
     (case set_status_downstream_border new_coords old_coords is_plus f new_piece old_piece w of
        Inl e \<Rightarrow> Inl e
      | Inr w' \<Rightarrow> split_at_border new_coords old_coords is_plus new_piece old_piece rest w')"

text \<open>
  \<open>for f in aligned_features: ... self.core_queue.piece_swaps.append(to_swap)\<close>; every
  round asks \<open>self.downstream_piece(piece)\<close> again.
\<close>

fun enqueue_piece_swaps :: "nat \<Rightarrow> nat \<Rightarrow> nat list \<Rightarrow> World \<times> TranscriptTrimmer \<Rightarrow> World \<times> TranscriptTrimmer" where
  "enqueue_piece_swaps border piece [] wt = wt"
| "enqueue_piece_swaps border piece (f # rest) wt =
     (let r = downstream_piece wt piece;
          w1 = fst (fst r);
          to_swap = (piece_id (pieces w1 border), piece_id (pieces w1 (snd r)),
                     feature_id (features w1 f))
      in enqueue_piece_swaps border piece rest
           (w1\<lparr>piece_swaps := piece_swaps w1 @ [to_swap]\<rparr>, snd (fst r)))"

text \<open>The branch the chain takes for a group in a store: \<open>f0\<close> decides for the group.\<close>

definition group_branch :: "nat \<Rightarrow> bool \<Rightarrow> World \<Rightarrow> nat list \<Rightarrow> branch" where
  "group_branch new_coords is_plus w aligned_features =
     branch_taken (coordinates w)
       (mk_FeatureVsCoords (features w (hd aligned_features)) (coordinates w new_coords) is_plus)"

definition handle_group :: "nat \<Rightarrow> bool \<Rightarrow> nat list \<times> nat \<Rightarrow> Loop \<Rightarrow> Loop result" where
  "handle_group new_coords is_plus g s =
     (let aligned_features = fst g; piece = snd g; w = world s in
      case aligned_features of
        [] \<Rightarrow> Inl (IndexError, w)
      | f0 # _ \<Rightarrow>
         (let old_coordinate = coordinate (features w f0) in
          case group_branch new_coords is_plus w aligned_features of
            Detached \<Rightarrow> Inr s
          | Upstream \<Rightarrow> Inr s
          | OverlapsUpstream \<Rightarrow> Inr s
          | Contained \<Rightarrow>
              Inr (s\<lparr>world := enqueue_coord_swaps new_coords aligned_features w,
                     seen_one_overlap := True\<rparr>)
          | OverlapsDownstream \<Rightarrow>
              (let r = downstream_piece (w, trimmer s) piece;
                   new_piece_after_border = snd r;
                   w1 = execute_so_far (fst (fst r))
               in case split_at_border new_coords old_coordinate is_plus
                         new_piece_after_border piece aligned_features w1 of
                    Inl e \<Rightarrow> Inl e
                  | Inr w2 \<Rightarrow>
                      Inr (s\<lparr>world := w2, trimmer := snd (fst r), seen_one_overlap := True,
                             piece_at_border := Some piece\<rparr>))
          | Downstream \<Rightarrow>
              (case piece_at_border s of
                 None \<Rightarrow> Inr s
               | Some border \<Rightarrow>
                   if piece = border then
                     (let r = enqueue_piece_swaps border piece aligned_features (w, trimmer s)
                      in Inr (s\<lparr>world := fst r, trimmer := snd r\<rparr>))
                   else Inr s)
          | Unclassifiable \<Rightarrow> Inl (AssertionError, w)))"

fun walk :: "nat \<Rightarrow> bool \<Rightarrow> (nat list \<times> nat) list \<Rightarrow> Loop \<Rightarrow> Loop result" where
  "walk new_coords is_plus [] s = Inr s"
| "walk new_coords is_plus (g # rest) s =
     (case handle_group new_coords is_plus g s of
        Inl e \<Rightarrow> Inl e
      | Inr s' \<Rightarrow> walk new_coords is_plus rest s')"

text \<open>
  \<open>modify4new_slice\<close>. \<open>transition_gen\<close> is the list that \<open>transition_5p_to_3p\<close> (of the
  geenuff library) yields: the groups of aligned features, each with its piece.
  The dictionary \<open>trees\<close> is the one in the store. The flush after the loop is
  commented out in the source, and so is the removal of pieces left empty.
\<close>

definition modify4new_slice ::
  "nat \<Rightarrow> bool \<Rightarrow> (nat list \<times> nat) list \<Rightarrow> World \<times> TranscriptTrimmer \<Rightarrow> (World \<times> TranscriptTrimmer) result" where
  "modify4new_slice new_coords is_plus transition_gen wt =
     (case walk new_coords is_plus transition_gen
             \<lparr>world = fst wt, trimmer = snd wt, seen_one_overlap = False, piece_at_border = None\<rparr> of
        Inl e \<Rightarrow> Inl e
      | Inr s \<Rightarrow>
          if \<not> seen_one_overlap s then Inl (NoFeaturesInSliceError, world s)
          else Inr (world s, (trimmer s)\<lparr>cached_downstream_piece := None\<rparr>))"

subsection \<open>SuperLocusHandler.modify4slice\<close>

text \<open>\<open>piece.features\<close> is the other side of \<open>feature.transcribed_pieces\<close>.\<close>

definition piece_features :: "World \<Rightarrow> nat \<Rightarrow> nat list" where
  "piece_features w piece =
     filter (\<lambda>k. piece \<in> set (transcribed_pieces (features w k))) [0..<next_feature w]"

text \<open>The double check in the \<open>except\<close> clause: true when no assertion fails.\<close>

definition no_overlap_check :: "nat \<Rightarrow> bool \<Rightarrow> World \<Rightarrow> nat \<Rightarrow> bool" where
  "no_overlap_check new_coords is_plus w transcribed_key =
     list_all (\<lambda>piece.
       list_all (\<lambda>k.
         let f = features w k; c = coordinates w new_coords in
         if is_plus = is_plus_strand f then
           (if is_plus then \<not> (coord_start c \<le> feature_start f \<and> feature_start f \<le> coord_end c)
            else \<not> (coord_start c - 1 \<le> feature_start f \<and> feature_start f \<le> coord_end c - 1))
         else True)
       (piece_features w piece))
     (transcript_pieces w transcribed_key)"

definition new_trimmer :: "nat \<Rightarrow> TranscriptTrimmer" where
  "new_trimmer transcribed_key =
     \<lparr>transcript = transcribed_key, handlers = [], cached_downstream_piece = None\<rparr>"

text \<open>
  \<open>transition_5p_to_3p\<close> is a parameter: what the walk provider yields for a
  transcript in the store as it is when the transcript's turn comes.
\<close>

fun modify4slice ::
  "(World \<Rightarrow> nat \<Rightarrow> (nat list \<times> nat) list) \<Rightarrow> nat \<Rightarrow> bool \<Rightarrow> nat list \<Rightarrow> World \<Rightarrow> World result" where
  "modify4slice transition_5p_to_3p new_coords is_plus [] w = Inr w"
| "modify4slice transition_5p_to_3p new_coords is_plus (transcribed_key # rest) w =
     (case modify4new_slice new_coords is_plus (transition_5p_to_3p w transcribed_key)
             (w, new_trimmer transcribed_key) of
        Inr r \<Rightarrow> modify4slice transition_5p_to_3p new_coords is_plus rest (fst r)
      | Inl (e, w') \<Rightarrow>
          if e = NoFeaturesInSliceError then
            (if no_overlap_check new_coords is_plus w' transcribed_key
             then modify4slice transition_5p_to_3p new_coords is_plus rest w'
             else Inl (AssertionError, w'))
          else Inl (e, w'))"

section \<open>Notions used in the statements\<close>

text \<open>
  What \<open>set_status_downstream_border\<close> leaves of the template, and the feature it
  creates from it under the key \<open>k\<close>.
\<close>

definition kept_part :: "Feature \<Rightarrow> int \<Rightarrow> nat \<Rightarrow> Feature" where
  "kept_part f cut_at nc = f\<lparr>feature_end := cut_at, end_is_biological_end := False, coordinate := nc\<rparr>"

definition downstream_part :: "Feature \<Rightarrow> nat \<Rightarrow> int \<Rightarrow> nat \<Rightarrow> nat list \<Rightarrow> Feature" where
  "downstream_part f k cut_at oc dp =
     f\<lparr>feature_id := Some k, feature_start := cut_at, given_name := None, coordinate := oc,
       start_is_biological_start := False, transcribed_pieces := dp\<rparr>"

text \<open>
  Two features agree in every column that no swap record touches, that is in all
  but \<open>coordinate\<close> and \<open>transcribed_pieces\<close>.
\<close>

definition same_but_links :: "Feature \<Rightarrow> Feature \<Rightarrow> bool" where
  "same_but_links f g \<longleftrightarrow>
     feature_id f = feature_id g \<and> given_name f = given_name g
     \<and> feature_start f = feature_start g \<and> feature_end f = feature_end g
     \<and> is_plus_strand f = is_plus_strand g
     \<and> start_is_biological_start f = start_is_biological_start g
     \<and> end_is_biological_end f = end_is_biological_end g
     \<and> other_columns f = other_columns g"

text \<open>Pieces made so far plus the one that the trimmer may still make.\<close>

definition piece_budget :: "World \<Rightarrow> TranscriptTrimmer \<Rightarrow> nat" where
  "piece_budget w t = next_piece w + (if cached_downstream_piece t = None then 1 else 0)"



text \<open>
  The features of a transcript, piece by piece (as \<open>SuperLocusHandler.features\<close>
  yields them), and the multiset of their \<open>(start, end)\<close>.
\<close>

definition transcript_features :: "World \<Rightarrow> nat \<Rightarrow> nat list" where
  "transcript_features w transcribed_key =
     concat (map (piece_features w) (transcript_pieces w transcribed_key))"

definition transcript_intervals :: "World \<Rightarrow> nat \<Rightarrow> (int \<times> int) multiset" where
  "transcript_intervals w transcribed_key =
     mset (map (\<lambda>k. (feature_start (features w k), feature_end (features w k)))
            (transcript_features w transcribed_key))"

text \<open>
  The feature \<open>f\<close> is on the slice's sequence and on the walked strand, and its
  adjusted interval has positive length and lies within \<open>[start, end)\<close> of the slice.
\<close>

definition within_slice :: "nat \<Rightarrow> bool \<Rightarrow> World \<Rightarrow> nat \<Rightarrow> bool" where
  "within_slice nc is_plus w f =
     (let p = mk_FeatureVsCoords (features w f) (coordinates w nc) is_plus in
      \<not> is_detached (coordinates w) p
      \<and> coord_start (coordinates w nc) \<le> feature_py_start p
      \<and> feature_py_start p < feature_py_end p
      \<and> feature_py_end p \<le> coord_end (coordinates w nc))"

text \<open>
  A group that is not empty and is taken in one of the branches in which a round
  does nothing as long as no border has been found.
\<close>

definition passed_over :: "nat \<Rightarrow> bool \<Rightarrow> World \<Rightarrow> nat list \<times> nat \<Rightarrow> bool" where
  "passed_over nc is_plus w g \<longleftrightarrow>
     fst g \<noteq> []
     \<and> (group_branch nc is_plus w (fst g) = Detached
        \<or> group_branch nc is_plus w (fst g) = Upstream
        \<or> group_branch nc is_plus w (fst g) = OverlapsUpstream
        \<or> group_branch nc is_plus w (fst g) = Downstream)"

text \<open>
  What executing the queue does to the row \<open>k\<close> alone: the records that name it
  are applied in their order, coordinate swaps first.
\<close>

definition coord_swap_row :: "nat \<Rightarrow> coord_swap \<Rightarrow> Feature \<Rightarrow> Feature" where
  "coord_swap_row k r f = (if fst r = Some k then f\<lparr>coordinate := snd r\<rparr> else f)"

definition piece_swap_row :: "nat \<Rightarrow> piece_swap \<Rightarrow> Feature \<Rightarrow> Feature" where
  "piece_swap_row k r f =
     (case r of
        (Some piece_id_old, Some piece_id_new, Some j) \<Rightarrow>
          if j = k
          then f\<lparr>transcribed_pieces :=
                   map (\<lambda>p. if p = piece_id_old then piece_id_new else p) (transcribed_pieces f)\<rparr>
          else f
      | _ \<Rightarrow> f)"

definition flushed_row :: "World \<Rightarrow> nat \<Rightarrow> Feature" where
  "flushed_row w k =
     fold (piece_swap_row k) (piece_swaps w) (fold (coord_swap_row k) (coord_swaps w) (features w k))"

text \<open>The feature \<open>k\<close> is an existing committed row, and the only row with its id.\<close>

definition own_id :: "nat \<Rightarrow> World \<Rightarrow> bool" where
  "own_id k w \<longleftrightarrow>
     k < next_feature w \<and> feature_id (features w k) = Some k
     \<and> (\<forall>j. j \<noteq> k \<longrightarrow> feature_id (features w j) \<noteq> Some k)"

section \<open>Example inputs\<close>

definition blank_feature :: Feature where
  "blank_feature =
     \<lparr>feature_id = None, given_name = None, feature_start = 0, feature_end = 0,
      is_plus_strand = True, start_is_biological_start = True, end_is_biological_end = True,
      coordinate = 0, transcribed_pieces = [], other_columns = []\<rparr>"

text \<open>
  A committed plus-strand feature \<open>k\<close> from \<open>a\<close> to \<open>b\<close> on coordinate 0, in piece 0;
  and the same on the minus strand, where \<open>a\<close> is the higher end.
\<close>

definition plus_feature :: "nat \<Rightarrow> int \<Rightarrow> int \<Rightarrow> Feature" where
  "plus_feature k a b =
     blank_feature\<lparr>feature_id := Some k, given_name := Some ''exon'', feature_start := a,
                   feature_end := b, transcribed_pieces := [0],
                   other_columns := [(''type'', ''coding'')]\<rparr>"

definition minus_feature :: "nat \<Rightarrow> int \<Rightarrow> int \<Rightarrow> Feature" where
  "minus_feature k a b = (plus_feature k a b)\<lparr>is_plus_strand := False\<rparr>"

definition chromosome :: Coordinate where
  "chromosome = \<lparr>seqid = ''chr1'', coord_start = 0, coord_end = 1000\<rparr>"

definition slice_10_20 :: Coordinate where
  "slice_10_20 = \<lparr>seqid = ''chr1'', coord_start = 10, coord_end = 20\<rparr>"

definition slice_0_400 :: Coordinate where
  "slice_0_400 = \<lparr>seqid = ''chr1'', coord_start = 0, coord_end = 400\<rparr>"

text \<open>
  A store with the coordinate rows 0 (the whole sequence) and 1 (the slice), the
  given committed features, and one transcript, 0, of two committed pieces 0 and 1
  at the positions 0 and 1.
\<close>

definition example_coordinates :: "Coordinate \<Rightarrow> nat \<Rightarrow> Coordinate" where
  "example_coordinates slice k = (if k = 1 then slice else chromosome)"

definition example_pieces :: "nat \<Rightarrow> TranscribedPiece" where
  "example_pieces k =
     \<lparr>piece_id = (if k < 2 then Some k else None), position = int k, transcribed = 0\<rparr>"

definition example_world :: "Coordinate \<Rightarrow> Feature list \<Rightarrow> World" where
  "example_world slice fs =
     \<lparr>coordinates = example_coordinates slice,
      features = (\<lambda>k. if k < length fs then fs ! k else blank_feature),
      next_feature = length fs,
      pieces = example_pieces, next_piece = 2,
      transcript_pieces = (\<lambda>t. if t = 0 then [0, 1] else []),
      coord_swaps = [], piece_swaps = [], trees = Map.empty\<rparr>"

text \<open>
  The scenario of the spec (section 8): a plus-strand transcript whose features
  \<open>[100, 200)\<close>, \<open>[200, 500)\<close>, \<open>[500, 800)\<close> sit in piece 0, sliced at
  \<open>[0, 400)\<close>; and the state of the loop when it reaches the second feature.
\<close>

definition scenario_world :: World where
  "scenario_world =
     example_world slice_0_400
       [plus_feature 0 100 200, plus_feature 1 200 500, plus_feature 2 500 800]"

definition scenario_at_border :: Loop where
  "scenario_at_border =
     \<lparr>world = scenario_world\<lparr>coord_swaps := [(Some 0, 1)]\<rparr>, trimmer = new_trimmer 0,
      seen_one_overlap = True, piece_at_border = None\<rparr>"

text \<open>The scenario with its third feature in the transcript's second piece.\<close>

definition two_piece_world :: World where
  "two_piece_world =
     example_world slice_0_400
       [plus_feature 0 100 200, plus_feature 1 200 500,
        (plus_feature 2 500 800)\<lparr>transcribed_pieces := [1]\<rparr>]"

text \<open>The scenario's transcript against a slice that is the whole sequence.\<close>

definition full_span_world :: World where
  "full_span_world =
     example_world chromosome
       [plus_feature 0 100 200, plus_feature 1 200 500, plus_feature 2 500 800]"

text \<open>
  Transcripts of one feature: over the upstream end of the slice \<open>[10, 20)\<close>, beyond
  that slice, and inside the slice \<open>[0, 400)\<close>.
\<close>

definition upstream_overlap_world :: World where
  "upstream_overlap_world = example_world slice_10_20 [plus_feature 0 5 15]"

definition beyond_slice_world :: World where
  "beyond_slice_world = example_world slice_10_20 [plus_feature 0 100 200]"

definition single_feature_world :: World where
  "single_feature_world = example_world slice_0_400 [plus_feature 0 100 200]"

section \<open>Properties of the classifier\<close>

lemmas fvc_defs =
  is_detached_def is_upstream_def is_lower_def is_higher_def overlaps_upstream_def
  overlaps_lower_def overlaps_higher_def is_contained_def overlaps_downstream_def
  is_downstream_def

lemmas example_defs =
  blank_feature_def plus_feature_def minus_feature_def chromosome_def slice_10_20_def
  slice_0_400_def example_coordinates_def example_pieces_def example_world_def

lemmas run_defs =
  modify4new_slice_def handle_group_def group_branch_def branch_taken_def mk_FeatureVsCoords_def
  fvc_defs downstream_piece_def mk_new_piece_def execute_so_far_def apply_coord_swap_def
  apply_piece_swap_def commit_piece_def commit_feature_def set_status_downstream_border_def
  new_handled_data_def load_to_intervaltree_def down_at_def Let_def new_trimmer_def

lemmas scenario_defs = scenario_world_def scenario_at_border_def example_defs

lemma branch_taken_classified: "branch_taken cs p \<noteq> Unclassifiable"
  unfolding branch_taken_def fvc_defs Let_def by auto

lemma classifications_nonempty: "classifications cs p \<noteq> []"
  unfolding classifications_def fvc_defs Let_def by auto

lemma branch_taken_first: "branch_taken cs p = hd (classifications cs p)"
  unfolding branch_taken_def classifications_def fvc_defs Let_def by auto

lemma classifications_single:
  assumes "\<not> is_detached cs p"
    and "coord_start (slice_coordinates p) \<le> coord_end (slice_coordinates p)"
    and "feature_py_start p < feature_py_end p"
    and "\<not> (feature_py_start p < coord_start (slice_coordinates p)
            \<and> coord_end (slice_coordinates p) < feature_py_end p)"
  shows "classifications cs p = [branch_taken cs p]"
  using assms unfolding branch_taken_def classifications_def fvc_defs Let_def by auto

text \<open>
  C4, as the code has it. The adjusted interval of a minus-strand feature is
  \<open>[end + 1, start + 1)\<close>. At least one of the six predicates holds of every feature
  and slice, so the final \<open>else\<close> of the chain in \<open>modify4new_slice\<close> is never taken,
  whatever the length of the interval; the chain takes the first predicate that
  holds. The predicates are not exclusive in general. Exactly one holds when the
  feature is not detached, the slice is not inverted, the adjusted interval has
  positive length and the feature does not reach beyond both ends of the slice.
\<close>

theorem classification_first_of_at_least_one:
  "(let p = mk_FeatureVsCoords f c is_plus in
      feature_py_start p = (if is_plus then feature_start f else feature_end f + 1)
    \<and> feature_py_end p = (if is_plus then feature_end f else feature_start f + 1)
    \<and> classifications cs p \<noteq> []
    \<and> branch_taken cs p = hd (classifications cs p)
    \<and> branch_taken cs p \<noteq> Unclassifiable
    \<and> (\<not> is_detached cs p \<and> coord_start c \<le> coord_end c
         \<and> feature_py_start p < feature_py_end p
         \<and> \<not> (feature_py_start p < coord_start c \<and> coord_end c < feature_py_end p)
        \<longrightarrow> classifications cs p = [branch_taken cs p]))
   \<and> group_branch new_coords is_plus w aligned_features \<noteq> Unclassifiable"
proof -
  define p where "p = mk_FeatureVsCoords f c is_plus"
  have sc: "slice_coordinates p = c"
    by (simp add: p_def mk_FeatureVsCoords_def)
  have adj: "feature_py_start p = (if is_plus then feature_start f else feature_end f + 1)"
    "feature_py_end p = (if is_plus then feature_end f else feature_start f + 1)"
    by (simp_all add: p_def mk_FeatureVsCoords_def)
  have single: "classifications cs p = [branch_taken cs p]"
    if "\<not> is_detached cs p" "coord_start c \<le> coord_end c"
       "feature_py_start p < feature_py_end p"
       "\<not> (feature_py_start p < coord_start c \<and> coord_end c < feature_py_end p)"
    using that classifications_single [of cs p] by (simp add: sc)
  have "group_branch new_coords is_plus w aligned_features \<noteq> Unclassifiable"
    by (simp add: group_branch_def branch_taken_classified)
  with adj single show ?thesis
    unfolding Let_def p_def [symmetric]
    using classifications_nonempty [of cs p] branch_taken_first [of cs p]
      branch_taken_classified [of cs p]
    by blast
qed

text \<open>
  The theorem at a minus-strand feature that starts at 199 and ends before 99, so
  that its adjusted interval is \<open>[100, 200)\<close>, against the slice \<open>[0, 400)\<close>: only
  \<open>is_contained\<close> holds.
\<close>

theorem classification_first_of_at_least_one_witness:
  "\<not> is_detached (\<lambda>_. chromosome) (mk_FeatureVsCoords (minus_feature 0 199 99) slice_0_400 False)
   \<and> coord_start slice_0_400 \<le> coord_end slice_0_400
   \<and> feature_py_start (mk_FeatureVsCoords (minus_feature 0 199 99) slice_0_400 False) = 100
   \<and> feature_py_end (mk_FeatureVsCoords (minus_feature 0 199 99) slice_0_400 False) = 200
   \<and> classifications (\<lambda>_. chromosome)
        (mk_FeatureVsCoords (minus_feature 0 199 99) slice_0_400 False) = [Contained]
   \<and> branch_taken (\<lambda>_. chromosome)
        (mk_FeatureVsCoords (minus_feature 0 199 99) slice_0_400 False) = Contained"
  using classification_first_of_at_least_one
    [where f = "minus_feature 0 199 99" and c = slice_0_400 and is_plus = False
       and cs = "\<lambda>_. chromosome"]
  by (simp add: Let_def mk_FeatureVsCoords_def example_defs fvc_defs branch_taken_def)

text \<open>
  C4 as stated fails: a plus-strand feature \<open>[0, 100)\<close> reaches beyond both ends of
  the slice \<open>[10, 20)\<close>, and both \<open>overlaps_upstream\<close> and \<open>overlaps_downstream\<close>
  hold of it; the chain takes \<open>overlaps_upstream\<close>.
\<close>

theorem classification_not_exclusive:
  "overlaps_upstream (mk_FeatureVsCoords (plus_feature 0 0 100) slice_10_20 True)
   \<and> overlaps_downstream (mk_FeatureVsCoords (plus_feature 0 0 100) slice_10_20 True)
   \<and> classifications (\<lambda>_. chromosome)
        (mk_FeatureVsCoords (plus_feature 0 0 100) slice_10_20 True)
       = [OverlapsUpstream, OverlapsDownstream]
   \<and> branch_taken (\<lambda>_. chromosome)
        (mk_FeatureVsCoords (plus_feature 0 0 100) slice_10_20 True) = OverlapsUpstream"
  by (simp add: classifications_def branch_taken_def mk_FeatureVsCoords_def example_defs fvc_defs)

text \<open>
  C8, as the code has it. Nothing in \<open>FeatureVsCoords\<close> or in the chain looks at the
  length of the adjusted interval. A feature whose adjusted interval is empty or
  inverted is classified like any other: it is detached, upstream, contained or
  downstream (it cannot overlap an end of the slice), and never reaches the final
  \<open>else\<close>.
\<close>

theorem degenerate_interval_is_classified:
  assumes "feature_py_start (mk_FeatureVsCoords f c is_plus)
             \<ge> feature_py_end (mk_FeatureVsCoords f c is_plus)"
  shows "branch_taken cs (mk_FeatureVsCoords f c is_plus)
           \<in> {Detached, Upstream, Contained, Downstream}"
  using assms unfolding branch_taken_def fvc_defs Let_def by auto

text \<open>The theorem at the empty feature \<open>[5, 5)\<close> and the slice \<open>[0, 400)\<close>: contained.\<close>

theorem degenerate_interval_is_classified_witness:
  "feature_py_start (mk_FeatureVsCoords (plus_feature 0 5 5) slice_0_400 True)
     \<ge> feature_py_end (mk_FeatureVsCoords (plus_feature 0 5 5) slice_0_400 True)
   \<and> branch_taken (\<lambda>_. chromosome) (mk_FeatureVsCoords (plus_feature 0 5 5) slice_0_400 True)
       = Contained"
proof -
  have h: "feature_py_start (mk_FeatureVsCoords (plus_feature 0 5 5) slice_0_400 True)
             \<ge> feature_py_end (mk_FeatureVsCoords (plus_feature 0 5 5) slice_0_400 True)"
    by (simp add: mk_FeatureVsCoords_def example_defs)
  have "branch_taken (\<lambda>_. chromosome) (mk_FeatureVsCoords (plus_feature 0 5 5) slice_0_400 True)
          = Contained"
    using degenerate_interval_is_classified [OF h, of "\<lambda>_. chromosome"]
    by (simp add: branch_taken_def mk_FeatureVsCoords_def example_defs fvc_defs)
  with h show ?thesis by simp
qed

section \<open>The piece manager\<close>

lemma increment_higher_frame:
  "coordinates (increment_higher piece xs w) = coordinates w
   \<and> features (increment_higher piece xs w) = features w
   \<and> next_feature (increment_higher piece xs w) = next_feature w
   \<and> next_piece (increment_higher piece xs w) = next_piece w
   \<and> transcript_pieces (increment_higher piece xs w) = transcript_pieces w
   \<and> coord_swaps (increment_higher piece xs w) = coord_swaps w
   \<and> piece_swaps (increment_higher piece xs w) = piece_swaps w
   \<and> trees (increment_higher piece xs w) = trees w"
  by (induction xs arbitrary: w) simp_all

lemma increment_higher_pieces:
  "distinct xs \<Longrightarrow>
   pieces (increment_higher piece xs w) k =
     (if k \<in> set xs \<and> position (pieces w k) > position (pieces w piece)
      then (pieces w k)\<lparr>position := position (pieces w k) + 1\<rparr> else pieces w k)"
proof (induction xs arbitrary: w)
  case Nil
  then show ?case by simp
next
  case (Cons x xs)
  let ?w' = "(if position (pieces w x) > position (pieces w piece)
        then w\<lparr>pieces := (pieces w)(x := (pieces w x)\<lparr>position := position (pieces w x) + 1\<rparr>)\<rparr>
        else w)"
  have p: "position (pieces ?w' piece) = position (pieces w piece)" by auto
  have k: "k \<noteq> x \<Longrightarrow> pieces ?w' k = pieces w k" by auto
  from Cons.prems have d: "distinct xs" "x \<notin> set xs" by auto
  show ?case
    using Cons.IH [OF d(1), of ?w'] d(2) p k
    by (cases "k = x") (auto split: if_splits)
qed

lemma fold_commit_piece_frame:
  "coordinates (fold commit_piece xs w) = coordinates w
   \<and> features (fold commit_piece xs w) = features w
   \<and> next_feature (fold commit_piece xs w) = next_feature w
   \<and> next_piece (fold commit_piece xs w) = next_piece w
   \<and> transcript_pieces (fold commit_piece xs w) = transcript_pieces w
   \<and> coord_swaps (fold commit_piece xs w) = coord_swaps w
   \<and> piece_swaps (fold commit_piece xs w) = piece_swaps w
   \<and> trees (fold commit_piece xs w) = trees w
   \<and> position (pieces (fold commit_piece xs w) k) = position (pieces w k)
   \<and> transcribed (pieces (fold commit_piece xs w) k) = transcribed (pieces w k)"
  by (induction xs arbitrary: w) (simp_all add: commit_piece_def split: option.splits)

lemma increment_higher_position_self:
  "position (pieces (increment_higher piece xs w) piece) = position (pieces w piece)"
  by (induction xs arbitrary: w) simp_all

lemma commit_piece_frame:
  "coordinates (commit_piece x w) = coordinates w
   \<and> features (commit_piece x w) = features w
   \<and> next_feature (commit_piece x w) = next_feature w
   \<and> next_piece (commit_piece x w) = next_piece w
   \<and> transcript_pieces (commit_piece x w) = transcript_pieces w
   \<and> coord_swaps (commit_piece x w) = coord_swaps w
   \<and> piece_swaps (commit_piece x w) = piece_swaps w
   \<and> trees (commit_piece x w) = trees w
   \<and> position (pieces (commit_piece x w) k) = position (pieces w k)
   \<and> transcribed (pieces (commit_piece x w) k) = transcribed (pieces w k)"
  by (simp add: commit_piece_def split: option.splits)

lemma mk_new_piece_frame:
  "snd (mk_new_piece (w, t) piece) = next_piece w
   \<and> next_piece (fst (fst (mk_new_piece (w, t) piece))) = Suc (next_piece w)
   \<and> coordinates (fst (fst (mk_new_piece (w, t) piece))) = coordinates w
   \<and> features (fst (fst (mk_new_piece (w, t) piece))) = features w
   \<and> next_feature (fst (fst (mk_new_piece (w, t) piece))) = next_feature w
   \<and> coord_swaps (fst (fst (mk_new_piece (w, t) piece))) = coord_swaps w
   \<and> piece_swaps (fst (fst (mk_new_piece (w, t) piece))) = piece_swaps w
   \<and> trees (fst (fst (mk_new_piece (w, t) piece))) = trees w
   \<and> transcript_pieces (fst (fst (mk_new_piece (w, t) piece)))
       = (transcript_pieces w)(transcript t := transcript_pieces w (transcript t) @ [next_piece w])
   \<and> snd (fst (mk_new_piece (w, t) piece)) = t\<lparr>handlers := handlers t @ [next_piece w]\<rparr>"
  by (simp add: mk_new_piece_def Let_def fold_commit_piece_frame commit_piece_frame
      increment_higher_frame)

lemma mk_new_piece_position:
  assumes "distinct (transcript_pieces w (transcript t))"
  shows "position (pieces (fst (fst (mk_new_piece (w, t) piece))) k) =
     (if k = next_piece w then position (pieces w piece) + 1
      else if k \<in> set (transcript_pieces w (transcript t))
              \<and> position (pieces w k) > position (pieces w piece)
      then position (pieces w k) + 1 else position (pieces w k))"
  using assms
  by (simp add: mk_new_piece_def Let_def fold_commit_piece_frame commit_piece_frame
      increment_higher_frame increment_higher_pieces increment_higher_position_self)

text \<open>
  C5. \<open>mk_new_piece\<close> on a transcript whose pieces are distinct committed rows at
  distinct positions: every piece above the given one moves up by one, the others
  stay, the new piece comes right after the given one, and the positions are still
  distinct. When the given piece is one of the transcript's \<open>N\<close> pieces and these
  were at \<open>0, ..., N - 1\<close>, the positions afterwards are \<open>0, ..., N\<close>.
\<close>

theorem mk_new_piece_positions:
  assumes "distinct (transcript_pieces w (transcript t))"
    and "\<forall>k\<in>set (transcript_pieces w (transcript t)). k < next_piece w"
    and "distinct (map (\<lambda>k. position (pieces w k)) (transcript_pieces w (transcript t)))"
  shows "(let ps = transcript_pieces w (transcript t);
              r = mk_new_piece (w, t) piece; w' = fst (fst r); new_piece = snd r;
              ps' = transcript_pieces w' (transcript t)
          in ps' = ps @ [new_piece]
           \<and> (\<forall>k\<in>set ps. position (pieces w' k) =
                 (if position (pieces w k) > position (pieces w piece)
                  then position (pieces w k) + 1 else position (pieces w k)))
           \<and> position (pieces w' new_piece) = position (pieces w piece) + 1
           \<and> distinct (map (\<lambda>k. position (pieces w' k)) ps')
           \<and> (piece \<in> set ps
                \<and> (\<lambda>k. position (pieces w k)) ` set ps = {0..<int (length ps)}
               \<longrightarrow> (\<lambda>k. position (pieces w' k)) ` set ps' = {0..int (length ps)}))"
proof -
  define ps where "ps = transcript_pieces w (transcript t)"
  define w' where "w' = fst (fst (mk_new_piece (w, t) piece))"
  define pos where "pos = (\<lambda>k. position (pieces w k))"
  define pos' where "pos' = (\<lambda>k. position (pieces w' k))"
  define p where "p = pos piece"
  have fresh: "next_piece w \<notin> set ps" using assms(2) by (auto simp: ps_def)
  have new: "snd (mk_new_piece (w, t) piece) = next_piece w"
    by (simp add: mk_new_piece_frame)
  have ps': "transcript_pieces w' (transcript t) = ps @ [next_piece w]"
    by (simp add: w'_def mk_new_piece_frame ps_def)
  have old: "pos' k = (if pos k > p then pos k + 1 else pos k)" if "k \<in> set ps" for k
    using that fresh mk_new_piece_position [OF assms(1), of piece k]
    by (auto simp: pos'_def pos_def w'_def ps_def p_def)
  have newpos: "pos' (next_piece w) = p + 1"
    using mk_new_piece_position [OF assms(1), of piece "next_piece w"]
    by (simp add: pos'_def pos_def w'_def p_def)
  have inj: "inj_on pos (set ps)"
    using assms(3) by (simp add: distinct_map ps_def pos_def)
  have inj': "inj_on pos' (set ps)"
  proof (rule inj_onI)
    fix a b assume ab: "a \<in> set ps" "b \<in> set ps" "pos' a = pos' b"
    then have "pos a = pos b" using old [of a] old [of b] by (auto split: if_splits)
    with inj ab show "a = b" by (auto dest: inj_onD)
  qed
  have notin: "p + 1 \<notin> pos' ` set ps"
    using old by (auto split: if_splits)
  have dist: "distinct (map pos' (ps @ [next_piece w]))"
    using assms(1) inj' notin newpos by (auto simp: distinct_map ps_def)
  have dense: "pos' ` set (ps @ [next_piece w]) = {0..int (length ps)}"
    if "piece \<in> set ps" "pos ` set ps = {0..<int (length ps)}"
  proof -
    have pin: "0 \<le> p \<and> p < int (length ps)" using that by (auto simp: p_def)
    have "pos' ` set ps = (\<lambda>x. if x > p then x + 1 else x) ` (pos ` set ps)"
      using old by (auto simp: image_iff)
    also have "\<dots> = (\<lambda>x. if x > p then x + 1 else x) ` {0..<int (length ps)}"
      using that by simp
    also have "\<dots> = {0..int (length ps)} - {p + 1}"
    proof (rule set_eqI)
      fix y
      show "y \<in> (\<lambda>x. if x > p then x + 1 else x) ` {0..<int (length ps)}
            \<longleftrightarrow> y \<in> {0..int (length ps)} - {p + 1}"
      proof
        assume "y \<in> (\<lambda>x. if x > p then x + 1 else x) ` {0..<int (length ps)}"
        then show "y \<in> {0..int (length ps)} - {p + 1}" using pin by (auto split: if_splits)
      next
        assume y: "y \<in> {0..int (length ps)} - {p + 1}"
        show "y \<in> (\<lambda>x. if x > p then x + 1 else x) ` {0..<int (length ps)}"
        proof (cases "y \<le> p")
          case True
          then show ?thesis
            using y pin by (intro image_eqI [where x = y]) auto
        next
          case False
          then show ?thesis
            using y pin by (intro image_eqI [where x = "y - 1"]) auto
        qed
      qed
    qed
    finally have "pos' ` set ps = {0..int (length ps)} - {p + 1}" .
    then show ?thesis using newpos pin by auto
  qed
  show ?thesis
    unfolding Let_def new
    using ps' old newpos dist dense
    by (simp add: ps_def [symmetric] w'_def [symmetric] pos_def pos'_def p_def)
qed

text \<open>The theorem at the example transcript, split after its first piece.\<close>

theorem mk_new_piece_positions_witness:
  "distinct (transcript_pieces (example_world slice_0_400 []) (transcript (new_trimmer 0)))
   \<and> transcript_pieces (example_world slice_0_400 []) (transcript (new_trimmer 0)) = [0, 1]
   \<and> next_piece (example_world slice_0_400 []) = 2
   \<and> distinct (map (\<lambda>k. position (pieces (example_world slice_0_400 []) k))
         (transcript_pieces (example_world slice_0_400 []) (transcript (new_trimmer 0))))
   \<and> (0::nat) \<in> set (transcript_pieces (example_world slice_0_400 []) (transcript (new_trimmer 0)))
   \<and> transcript_pieces
         (fst (fst (mk_new_piece (example_world slice_0_400 [], new_trimmer 0) 0))) 0 = [0, 1, 2]
   \<and> map (\<lambda>k. position (pieces
                (fst (fst (mk_new_piece (example_world slice_0_400 [], new_trimmer 0) 0))) k))
         [0, 1, 2] = [0, 2, 1]"
proof -
  have h1: "distinct (transcript_pieces (example_world slice_0_400 []) (transcript (new_trimmer 0)))"
    by (simp add: example_defs new_trimmer_def)
  have h2: "\<forall>k\<in>set (transcript_pieces (example_world slice_0_400 []) (transcript (new_trimmer 0))).
              k < next_piece (example_world slice_0_400 [])"
    by (simp add: example_defs new_trimmer_def)
  have h3: "distinct (map (\<lambda>k. position (pieces (example_world slice_0_400 []) k))
              (transcript_pieces (example_world slice_0_400 []) (transcript (new_trimmer 0))))"
    by (simp add: example_defs new_trimmer_def)
  show ?thesis
    using h1 h2 h3
      mk_new_piece_positions [OF h1 h2 h3, of 0]
    by (simp add: Let_def mk_new_piece_frame example_defs new_trimmer_def)
qed

section \<open>Splitting at the downstream border\<close>

lemma load_to_intervaltree_frame:
  assumes "load_to_intervaltree w k = Inr w'"
  shows "coordinates w' = coordinates w \<and> features w' = features w
    \<and> next_feature w' = next_feature w \<and> pieces w' = pieces w \<and> next_piece w' = next_piece w
    \<and> transcript_pieces w' = transcript_pieces w \<and> coord_swaps w' = coord_swaps w
    \<and> piece_swaps w' = piece_swaps w"
  using assms by (auto simp: load_to_intervaltree_def Let_def split: if_splits)

lemma set_status_downstream_border_result:
  assumes ok: "set_status_downstream_border nc oc is_plus tf np op w = Inr w'"
    and tf: "tf < next_feature w"
  shows "\<exists>dp. swap_list_item (transcribed_pieces (features w tf)) np op = Some dp
    \<and> features w' = (features w)
         (next_feature w :=
            downstream_part (features w tf) (next_feature w) (down_at w nc is_plus) oc dp,
          tf := kept_part (features w tf) (down_at w nc is_plus) nc)"
    and "next_feature w' = Suc (next_feature w)"
    and "coordinates w' = coordinates w \<and> pieces w' = pieces w \<and> next_piece w' = next_piece w
      \<and> transcript_pieces w' = transcript_pieces w \<and> coord_swaps w' = coord_swaps w
      \<and> piece_swaps w' = piece_swaps w"
proof -
  let ?t = "features w tf"
  from ok obtain dp where dp: "swap_list_item (transcribed_pieces ?t) np op = Some dp"
    by (auto simp: set_status_downstream_border_def Let_def split: if_splits option.splits)
  let ?new = "?t\<lparr>feature_id := None, feature_start := down_at w nc is_plus,
             given_name := None, coordinate := oc, start_is_biological_start := False,
             transcribed_pieces := dp\<rparr>"
  let ?w1 = "w\<lparr>features := (features w)(next_feature w := ?new), next_feature := Suc (next_feature w)\<rparr>"
  from ok dp obtain w2 where w2: "load_to_intervaltree ?w1 (next_feature w) = Inr w2"
    and w': "w' = commit_feature (next_feature w)
                (w2\<lparr>features := (features w2)(tf := (features w2 tf)
                   \<lparr>feature_end := down_at w nc is_plus, end_is_biological_end := False,
                    coordinate := nc\<rparr>)\<rparr>)"
    by (auto simp: set_status_downstream_border_def new_handled_data_def Let_def
        split: if_splits sum.splits)
  note fr = load_to_intervaltree_frame [OF w2]
  from tf have ne: "tf \<noteq> next_feature w" by simp
  show "\<exists>dp. swap_list_item (transcribed_pieces (features w tf)) np op = Some dp
    \<and> features w' = (features w)
         (next_feature w :=
            downstream_part (features w tf) (next_feature w) (down_at w nc is_plus) oc dp,
          tf := kept_part (features w tf) (down_at w nc is_plus) nc)"
    using dp ne fr by (intro exI [where x = dp]) (auto simp: w' commit_feature_def fun_eq_iff kept_part_def downstream_part_def)
  show "next_feature w' = Suc (next_feature w)"
    using fr by (simp add: w' commit_feature_def split: option.splits)
  show "coordinates w' = coordinates w \<and> pieces w' = pieces w \<and> next_piece w' = next_piece w
      \<and> transcript_pieces w' = transcript_pieces w \<and> coord_swaps w' = coord_swaps w
      \<and> piece_swaps w' = piece_swaps w"
    using fr by (simp add: w' commit_feature_def split: option.splits)
qed


lemma apply_coord_swap_frame:
  "coordinates (apply_coord_swap r w) = coordinates w
   \<and> next_feature (apply_coord_swap r w) = next_feature w
   \<and> pieces (apply_coord_swap r w) = pieces w
   \<and> next_piece (apply_coord_swap r w) = next_piece w
   \<and> transcript_pieces (apply_coord_swap r w) = transcript_pieces w
   \<and> coord_swaps (apply_coord_swap r w) = coord_swaps w
   \<and> piece_swaps (apply_coord_swap r w) = piece_swaps w
   \<and> trees (apply_coord_swap r w) = trees w"
  by (simp add: apply_coord_swap_def split: prod.splits option.splits)

lemma apply_piece_swap_frame:
  "coordinates (apply_piece_swap r w) = coordinates w
   \<and> next_feature (apply_piece_swap r w) = next_feature w
   \<and> pieces (apply_piece_swap r w) = pieces w
   \<and> next_piece (apply_piece_swap r w) = next_piece w
   \<and> transcript_pieces (apply_piece_swap r w) = transcript_pieces w
   \<and> coord_swaps (apply_piece_swap r w) = coord_swaps w
   \<and> piece_swaps (apply_piece_swap r w) = piece_swaps w
   \<and> trees (apply_piece_swap r w) = trees w"
  by (simp add: apply_piece_swap_def split: prod.splits option.splits)

lemma same_but_links_refl [simp]: "same_but_links f f"
  by (simp add: same_but_links_def)

lemma same_but_links_trans: "same_but_links f g \<Longrightarrow> same_but_links g h \<Longrightarrow> same_but_links f h"
  by (simp add: same_but_links_def)

lemma apply_coord_swap_links: "same_but_links (features (apply_coord_swap r w) k) (features w k)"
  by (simp add: apply_coord_swap_def same_but_links_def split: prod.splits option.splits)

lemma apply_piece_swap_links: "same_but_links (features (apply_piece_swap r w) k) (features w k)"
  by (simp add: apply_piece_swap_def same_but_links_def split: prod.splits option.splits)

lemma fold_coord_swap_frame:
  "coordinates (fold apply_coord_swap q w) = coordinates w
   \<and> next_feature (fold apply_coord_swap q w) = next_feature w
   \<and> pieces (fold apply_coord_swap q w) = pieces w
   \<and> next_piece (fold apply_coord_swap q w) = next_piece w
   \<and> transcript_pieces (fold apply_coord_swap q w) = transcript_pieces w
   \<and> coord_swaps (fold apply_coord_swap q w) = coord_swaps w
   \<and> piece_swaps (fold apply_coord_swap q w) = piece_swaps w
   \<and> trees (fold apply_coord_swap q w) = trees w
   \<and> same_but_links (features (fold apply_coord_swap q w) k) (features w k)"
proof (induction q arbitrary: w)
  case Nil
  then show ?case by simp
next
  case (Cons r q)
  show ?case
    using Cons [of "apply_coord_swap r w"] apply_coord_swap_links [of r w k]
    by (auto simp: apply_coord_swap_frame intro: same_but_links_trans)
qed

lemma fold_piece_swap_frame:
  "coordinates (fold apply_piece_swap q w) = coordinates w
   \<and> next_feature (fold apply_piece_swap q w) = next_feature w
   \<and> pieces (fold apply_piece_swap q w) = pieces w
   \<and> next_piece (fold apply_piece_swap q w) = next_piece w
   \<and> transcript_pieces (fold apply_piece_swap q w) = transcript_pieces w
   \<and> coord_swaps (fold apply_piece_swap q w) = coord_swaps w
   \<and> piece_swaps (fold apply_piece_swap q w) = piece_swaps w
   \<and> trees (fold apply_piece_swap q w) = trees w
   \<and> same_but_links (features (fold apply_piece_swap q w) k) (features w k)"
proof (induction q arbitrary: w)
  case Nil
  then show ?case by simp
next
  case (Cons r q)
  show ?case
    using Cons [of "apply_piece_swap r w"] apply_piece_swap_links [of r w k]
    by (auto simp: apply_piece_swap_frame intro: same_but_links_trans)
qed

lemma execute_so_far_frame:
  "coordinates (execute_so_far w) = coordinates w
   \<and> next_feature (execute_so_far w) = next_feature w
   \<and> pieces (execute_so_far w) = pieces w
   \<and> next_piece (execute_so_far w) = next_piece w
   \<and> transcript_pieces (execute_so_far w) = transcript_pieces w
   \<and> coord_swaps (execute_so_far w) = []
   \<and> piece_swaps (execute_so_far w) = []
   \<and> trees (execute_so_far w) = trees w"
  by (simp add: execute_so_far_def fold_piece_swap_frame fold_coord_swap_frame)

lemma execute_so_far_links: "same_but_links (features (execute_so_far w) k) (features w k)"
  using fold_piece_swap_frame [of "piece_swaps w" "fold apply_coord_swap (coord_swaps w) w" k]
    fold_coord_swap_frame [of "coord_swaps w" w k]
  by (auto simp: execute_so_far_def intro: same_but_links_trans)




lemma downstream_piece_frame:
  "coordinates (fst (fst (downstream_piece (w, t) piece))) = coordinates w
   \<and> features (fst (fst (downstream_piece (w, t) piece))) = features w
   \<and> next_feature (fst (fst (downstream_piece (w, t) piece))) = next_feature w
   \<and> coord_swaps (fst (fst (downstream_piece (w, t) piece))) = coord_swaps w
   \<and> piece_swaps (fst (fst (downstream_piece (w, t) piece))) = piece_swaps w
   \<and> trees (fst (fst (downstream_piece (w, t) piece))) = trees w"
  by (simp add: downstream_piece_def mk_new_piece_frame split: option.splits)

lemma handle_group_border:
  assumes br: "group_branch nc is_plus (world s) fs = OverlapsDownstream"
    and ok: "handle_group nc is_plus (fs, piece) s = Inr s'"
  shows "fs \<noteq> []"
    and "split_at_border nc (coordinate (features (world s) (hd fs))) is_plus
           (snd (downstream_piece (world s, trimmer s) piece)) piece fs
           (execute_so_far (fst (fst (downstream_piece (world s, trimmer s) piece))))
         = Inr (world s')"
    and "trimmer s' = snd (fst (downstream_piece (world s, trimmer s) piece))"
    and "seen_one_overlap s'" and "piece_at_border s' = Some piece"
  using assms
  by (auto simp: handle_group_def Let_def split: list.splits sum.splits)



text \<open>
  C10. Every split of a feature at the downstream border, when it succeeds on an
  existing template in a store whose committed ids are below the next key: the
  new feature is not a biological start, has no given name and an id that no
  existing feature has; the template is no longer a biological end; the new
  feature's end, strand, \<open>end_is_biological_end\<close> and remaining columns are the
  template's (as they were before the split).
\<close>

theorem border_split_marks_cut:
  assumes ok: "set_status_downstream_border nc oc is_plus tf np op w = Inr w'"
    and tf: "tf < next_feature w"
    and ids: "\<forall>k i. k < next_feature w \<and> feature_id (features w k) = Some i \<longrightarrow> i < next_feature w"
  shows "next_feature w' = Suc (next_feature w)
    \<and> start_is_biological_start (features w' (next_feature w)) = False
    \<and> given_name (features w' (next_feature w)) = None
    \<and> feature_id (features w' (next_feature w)) = Some (next_feature w)
    \<and> (\<forall>k<next_feature w. feature_id (features w k) \<noteq> feature_id (features w' (next_feature w)))
    \<and> end_is_biological_end (features w' tf) = False
    \<and> feature_end (features w' (next_feature w)) = feature_end (features w tf)
    \<and> is_plus_strand (features w' (next_feature w)) = is_plus_strand (features w tf)
    \<and> end_is_biological_end (features w' (next_feature w)) = end_is_biological_end (features w tf)
    \<and> other_columns (features w' (next_feature w)) = other_columns (features w tf)"
proof -
  note s = set_status_downstream_border_result [OF ok tf]
  from s(1) obtain dp where
    fw: "features w' = (features w)
         (next_feature w :=
            downstream_part (features w tf) (next_feature w) (down_at w nc is_plus) oc dp,
          tf := kept_part (features w tf) (down_at w nc is_plus) nc)"
    by blast
  from tf have ne: "tf \<noteq> next_feature w" by simp
  have new: "features w' (next_feature w)
      = downstream_part (features w tf) (next_feature w) (down_at w nc is_plus) oc dp"
    using ne by (simp add: fw)
  have kept: "features w' tf = kept_part (features w tf) (down_at w nc is_plus) nc"
    by (simp add: fw)
  have fresh: "feature_id (features w k) \<noteq> Some (next_feature w)" if "k < next_feature w" for k
    using ids that by (cases "feature_id (features w k)") auto
  show ?thesis
    using s(2) fresh by (simp add: new kept downstream_part_def kept_part_def)
qed

text \<open>The theorem at the second feature of the scenario, split into piece 2.\<close>

theorem border_split_marks_cut_witness:
  "(1::nat) < next_feature (world scenario_at_border)
   \<and> feature_id (features (world scenario_at_border) 0) = Some 0
   \<and> feature_id (features (world scenario_at_border) 1) = Some 1
   \<and> feature_id (features (world scenario_at_border) 2) = Some 2
   \<and> next_feature (world scenario_at_border) = 3
   \<and> (case set_status_downstream_border 1 0 True 1 2 0 (world scenario_at_border) of
         Inl e \<Rightarrow> False
       | Inr w' \<Rightarrow>
           feature_id (features w' 3) = Some 3 \<and> given_name (features w' 3) = None
         \<and> \<not> start_is_biological_start (features w' 3)
         \<and> \<not> end_is_biological_end (features w' 1)
         \<and> end_is_biological_end (features w' 3)
         \<and> other_columns (features w' 3) = [(''type'', ''coding'')])"
proof -
  let ?w = "world scenario_at_border"
  have n: "next_feature ?w = 3" by (simp add: scenario_defs)
  have tf: "(1::nat) < next_feature ?w" by (simp add: n)
  have ids: "\<forall>k i. k < next_feature ?w \<and> feature_id (features ?w k) = Some i
               \<longrightarrow> i < next_feature ?w"
    by (auto simp: scenario_defs less_Suc_eq numeral_3_eq_3)
  have "\<exists>w'. set_status_downstream_border 1 0 True 1 2 0 ?w = Inr w'"
    by (simp add: run_defs scenario_defs)
  then obtain w' where ok: "set_status_downstream_border 1 0 True 1 2 0 ?w = Inr w'" ..
  have c: "feature_id (features w' 3) = Some 3 \<and> given_name (features w' 3) = None
         \<and> \<not> start_is_biological_start (features w' 3)
         \<and> \<not> end_is_biological_end (features w' 1)
         \<and> end_is_biological_end (features w' 3)
         \<and> other_columns (features w' 3) = [(''type'', ''coding'')]"
    using border_split_marks_cut [OF ok tf ids] unfolding n
    by (simp add: scenario_defs)
  show ?thesis
    unfolding ok sum.case using c by (simp add: scenario_defs)
qed


text \<open>
  C8 as stated fails: the empty plus-strand feature \<open>[5, 5)\<close> is accepted as
  contained in the slice \<open>[0, 400)\<close>; the call succeeds and enqueues its coordinate
  swap.
\<close>

theorem empty_feature_is_accepted:
  "feature_py_start (mk_FeatureVsCoords (plus_feature 0 5 5) slice_0_400 True)
     = feature_py_end (mk_FeatureVsCoords (plus_feature 0 5 5) slice_0_400 True)
   \<and> modify4new_slice 1 True [([0], 0)]
        (example_world slice_0_400 [plus_feature 0 5 5], new_trimmer 0)
     = Inr ((example_world slice_0_400 [plus_feature 0 5 5])\<lparr>coord_swaps := [(Some 0, 1)]\<rparr>,
            new_trimmer 0)"
  by (simp add: run_defs example_defs)

section \<open>The walk over the groups\<close>

lemma enqueue_coord_swaps_eq:
  "enqueue_coord_swaps nc fs w =
     w\<lparr>coord_swaps := coord_swaps w @ map (\<lambda>f. (feature_id (features w f), nc)) fs\<rparr>"
  by (induction fs arbitrary: w) simp_all

lemma downstream_piece_cached:
  "cached_downstream_piece (snd (fst (downstream_piece wt piece)))
     = Some (snd (downstream_piece wt piece))"
  by (simp add: downstream_piece_def Let_def split: option.splits)

lemma downstream_piece_again:
  "cached_downstream_piece (snd wt) = Some d \<Longrightarrow> downstream_piece wt piece = (wt, d)"
  by (simp add: downstream_piece_def)

lemma enqueue_piece_swaps_cached:
  assumes "cached_downstream_piece t = Some d"
  shows "enqueue_piece_swaps border piece fs (w, t) =
     (w\<lparr>piece_swaps := piece_swaps w @
          map (\<lambda>f. (piece_id (pieces w border), piece_id (pieces w d), feature_id (features w f))) fs\<rparr>, t)"
  using assms
  by (induction fs arbitrary: w) (simp_all add: downstream_piece_again Let_def)

lemma enqueue_piece_swaps_eq:
  "enqueue_piece_swaps border piece fs wt =
     (if fs = [] then wt
      else (let r = downstream_piece wt piece; w1 = fst (fst r)
            in (w1\<lparr>piece_swaps := piece_swaps w1 @
                   map (\<lambda>f. (piece_id (pieces w1 border), piece_id (pieces w1 (snd r)),
                              feature_id (features w1 f))) fs\<rparr>,
                snd (fst r))))"
proof (cases fs)
  case Nil
  then show ?thesis by simp
next
  case (Cons f rest)
  let ?r = "downstream_piece wt piece"
  let ?w1 = "fst (fst ?r)"
  let ?rec = "(piece_id (pieces ?w1 border), piece_id (pieces ?w1 (snd ?r)),
                 feature_id (features ?w1 f))"
  have "enqueue_piece_swaps border piece (f # rest) wt
      = enqueue_piece_swaps border piece rest
          (?w1\<lparr>piece_swaps := piece_swaps ?w1 @ [?rec]\<rparr>, snd (fst ?r))"
    by (simp add: Let_def)
  also have "\<dots> = ((?w1\<lparr>piece_swaps := piece_swaps ?w1 @ [?rec]\<rparr>)
      \<lparr>piece_swaps := piece_swaps (?w1\<lparr>piece_swaps := piece_swaps ?w1 @ [?rec]\<rparr>) @
          map (\<lambda>f. (piece_id (pieces ?w1 border), piece_id (pieces ?w1 (snd ?r)),
                     feature_id (features ?w1 f))) rest\<rparr>, snd (fst ?r))"
    using enqueue_piece_swaps_cached [OF downstream_piece_cached [of wt piece],
        of border piece rest "?w1\<lparr>piece_swaps := piece_swaps ?w1 @ [?rec]\<rparr>"]
    by simp
  finally show ?thesis using Cons by (simp add: Let_def)
qed

text \<open>What one round of the loop does, branch by branch.\<close>

lemma handle_group_skipped:
  assumes "fs \<noteq> []"
    and "group_branch nc is_plus (world s) fs \<in> {Detached, Upstream, OverlapsUpstream}"
  shows "handle_group nc is_plus (fs, piece) s = Inr s"
  using assms by (auto simp: handle_group_def Let_def split: list.splits)

lemma handle_group_contained:
  assumes "fs \<noteq> []" and "group_branch nc is_plus (world s) fs = Contained"
  shows "handle_group nc is_plus (fs, piece) s =
     Inr (s\<lparr>world := (world s)\<lparr>coord_swaps := coord_swaps (world s) @
                 map (\<lambda>f. (feature_id (features (world s) f), nc)) fs\<rparr>,
            seen_one_overlap := True\<rparr>)"
  using assms by (auto simp: handle_group_def Let_def enqueue_coord_swaps_eq split: list.splits)

lemma handle_group_downstream:
  assumes "fs \<noteq> []" and "group_branch nc is_plus (world s) fs = Downstream"
  shows "handle_group nc is_plus (fs, piece) s =
     Inr (if piece_at_border s = Some piece
          then (let r = downstream_piece (world s, trimmer s) piece; w1 = fst (fst r)
                in s\<lparr>world := w1\<lparr>piece_swaps := piece_swaps w1 @
                          map (\<lambda>f. (piece_id (pieces w1 piece), piece_id (pieces w1 (snd r)),
                                     feature_id (features w1 f))) fs\<rparr>,
                      trimmer := snd (fst r)\<rparr>)
          else s)"
  using assms
  by (auto simp: handle_group_def Let_def enqueue_piece_swaps_eq split: list.splits option.splits)

lemma handle_group_errors:
  "handle_group nc is_plus ([], piece) s = Inl (IndexError, world s)"
  "fs \<noteq> [] \<Longrightarrow> group_branch nc is_plus (world s) fs = Unclassifiable \<Longrightarrow>
   handle_group nc is_plus (fs, piece) s = Inl (AssertionError, world s)"
  by (auto simp: handle_group_def Let_def split: list.splits)

lemma set_status_downstream_border_frame:
  assumes "set_status_downstream_border nc oc is_plus tf np op w = Inr w'"
  shows "coordinates w' = coordinates w \<and> pieces w' = pieces w \<and> next_piece w' = next_piece w
      \<and> transcript_pieces w' = transcript_pieces w \<and> coord_swaps w' = coord_swaps w
      \<and> piece_swaps w' = piece_swaps w \<and> next_feature w' = Suc (next_feature w)"
  using assms
  by (auto simp: set_status_downstream_border_def new_handled_data_def Let_def commit_feature_def
      dest!: load_to_intervaltree_frame split: if_splits option.splits sum.splits)

lemma split_at_border_frame:
  assumes "split_at_border nc oc is_plus np op fs w = Inr w'"
  shows "coordinates w' = coordinates w \<and> pieces w' = pieces w \<and> next_piece w' = next_piece w
      \<and> transcript_pieces w' = transcript_pieces w \<and> coord_swaps w' = coord_swaps w
      \<and> piece_swaps w' = piece_swaps w \<and> next_feature w' = next_feature w + length fs"
  using assms
proof (induction fs arbitrary: w)
  case Nil
  then show ?case by simp
next
  case (Cons f rest)
  from Cons.prems obtain w1 where
    w1: "set_status_downstream_border nc oc is_plus f np op w = Inr w1"
    and rest: "split_at_border nc oc is_plus np op rest w1 = Inr w'"
    by (auto split: sum.splits)
  show ?case
    using Cons.IH [OF rest] set_status_downstream_border_frame [OF w1] by simp
qed

lemma downstream_piece_budget:
  "piece_budget (fst (fst (downstream_piece (w, t) piece))) (snd (fst (downstream_piece (w, t) piece)))
     = piece_budget w t"
  by (simp add: piece_budget_def downstream_piece_def mk_new_piece_frame split: option.splits)

lemma handle_group_budget:
  assumes "handle_group nc is_plus g s = Inr s'"
  shows "piece_budget (world s') (trimmer s') = piece_budget (world s) (trimmer s)"
proof -
  obtain fs piece where g: "g = (fs, piece)" by (cases g)
  from assms g have ne: "fs \<noteq> []" by (auto simp: handle_group_def)
  show ?thesis
  proof (cases "group_branch nc is_plus (world s) fs")
    case OverlapsDownstream
    note hb = handle_group_border [OF OverlapsDownstream assms [unfolded g]]
    let ?r = "downstream_piece (world s, trimmer s) piece"
    have "next_piece (world s') = next_piece (fst (fst ?r))"
      using split_at_border_frame [OF hb(2)] by (simp add: execute_so_far_frame)
    then show ?thesis
      using downstream_piece_budget [of "world s" "trimmer s" piece] hb(3)
      by (simp add: piece_budget_def)
  next
    case Downstream
    show ?thesis
      using assms [unfolded g handle_group_downstream [OF ne Downstream]]
        downstream_piece_budget [of "world s" "trimmer s" piece]
      by (auto simp: piece_budget_def Let_def split: if_splits)
  next
    case Contained
    show ?thesis
      using assms [unfolded g handle_group_contained [OF ne Contained]] by (auto simp: piece_budget_def)
  next
    case Unclassifiable
    then show ?thesis using assms g ne by (simp add: handle_group_errors)
  qed (use assms g ne handle_group_skipped [of fs nc is_plus s piece] in auto)
qed

lemma walk_budget:
  "walk nc is_plus gs s = Inr s' \<Longrightarrow>
   piece_budget (world s') (trimmer s') = piece_budget (world s) (trimmer s)"
proof (induction gs arbitrary: s)
  case Nil
  then show ?case by simp
next
  case (Cons g gs)
  from Cons.prems obtain s1 where s1: "handle_group nc is_plus g s = Inr s1"
    and rest: "walk nc is_plus gs s1 = Inr s'"
    by (auto split: sum.splits)
  show ?case using Cons.IH [OF rest] handle_group_budget [OF s1] by simp
qed

lemma modify4new_slice_walk:
  assumes "modify4new_slice nc is_plus gs (w, t) = Inr (w', t')"
  shows "\<exists>s. walk nc is_plus gs
               \<lparr>world = w, trimmer = t, seen_one_overlap = False, piece_at_border = None\<rparr> = Inr s
             \<and> seen_one_overlap s \<and> w' = world s
             \<and> t' = (trimmer s)\<lparr>cached_downstream_piece := None\<rparr>"
  using assms by (auto simp: modify4new_slice_def split: sum.splits if_splits)

text \<open>
  C6, as the code has it. A group taken as \<open>is_downstream\<close> once a border piece is
  known: when the group's piece is the border piece, one piece swap from the border
  piece to the downstream piece is enqueued for each feature of the group; when it
  is another piece, the round changes nothing. The downstream piece is made on
  first request and kept: a second request returns it without touching the store,
  and a call of \<open>modify4new_slice\<close> makes at most one piece.
\<close>

theorem downstream_group_piece_swaps:
  "(fs \<noteq> [] \<and> group_branch nc is_plus (world s) fs = Downstream
      \<and> piece_at_border s = Some border \<longrightarrow>
      handle_group nc is_plus (fs, piece) s =
        Inr (if piece = border
             then (let r = downstream_piece (world s, trimmer s) piece; w1 = fst (fst r)
                   in s\<lparr>world := w1\<lparr>piece_swaps := piece_swaps w1 @
                             map (\<lambda>f. (piece_id (pieces w1 border), piece_id (pieces w1 (snd r)),
                                        feature_id (features w1 f))) fs\<rparr>,
                         trimmer := snd (fst r)\<rparr>)
             else s))
   \<and> (cached_downstream_piece t = Some d \<longrightarrow> downstream_piece (w, t) piece = ((w, t), d))
   \<and> cached_downstream_piece (snd (fst (downstream_piece (w, t) piece)))
       = Some (snd (downstream_piece (w, t) piece))
   \<and> (modify4new_slice nc is_plus gs (w, t) = Inr (w', t') \<longrightarrow>
        next_piece w' \<le> Suc (next_piece w))"
proof -
  have a: "handle_group nc is_plus (fs, piece) s =
        Inr (if piece = border
             then (let r = downstream_piece (world s, trimmer s) piece; w1 = fst (fst r)
                   in s\<lparr>world := w1\<lparr>piece_swaps := piece_swaps w1 @
                             map (\<lambda>f. (piece_id (pieces w1 border), piece_id (pieces w1 (snd r)),
                                        feature_id (features w1 f))) fs\<rparr>,
                         trimmer := snd (fst r)\<rparr>)
             else s)"
    if "fs \<noteq> []" "group_branch nc is_plus (world s) fs = Downstream"
      "piece_at_border s = Some border"
    using handle_group_downstream [OF that(1,2), of piece] that(3) by auto
  have b: "downstream_piece (w, t) piece = ((w, t), d)" if "cached_downstream_piece t = Some d"
    using that downstream_piece_again [of "(w, t)" d piece] by simp
  have c: "next_piece w' \<le> Suc (next_piece w)"
    if "modify4new_slice nc is_plus gs (w, t) = Inr (w', t')"
  proof -
    from modify4new_slice_walk [OF that] obtain s1 where
      wk: "walk nc is_plus gs
             \<lparr>world = w, trimmer = t, seen_one_overlap = False, piece_at_border = None\<rparr> = Inr s1"
      and w': "w' = world s1" by blast
    show ?thesis using walk_budget [OF wk] by (simp add: piece_budget_def w' split: if_splits)
  qed
  show ?thesis using a b c downstream_piece_cached [of "(w, t)" piece] by blast
qed

text \<open>
  C6 as stated fails: with the third feature of the scenario in piece 1, the group
  \<open>([2], 1)\<close> comes after the border was found in piece 0 and is downstream, and no
  piece swap is enqueued for it.
\<close>

theorem later_piece_gets_no_swap:
  "(case walk 1 True [([0], 0), ([1], 0)]
          \<lparr>world = two_piece_world, trimmer = new_trimmer 0, seen_one_overlap = False,
           piece_at_border = None\<rparr> of
      Inl e \<Rightarrow> False
    | Inr s \<Rightarrow>
        piece_at_border s = Some 0
      \<and> group_branch 1 True (world s) [2] = Downstream
      \<and> (case handle_group 1 True ([2], 1) s of
            Inl e \<Rightarrow> False
          | Inr s' \<Rightarrow> piece_swaps (world s') = []))"
  by (simp add: run_defs two_piece_world_def example_defs)

text \<open>
  The theorem for C6 in the scenario, after its first two groups: the third feature
  gets the swap from piece 0 to the downstream piece 2.
\<close>

theorem downstream_group_piece_swaps_witness:
  "(case walk 1 True [([0], 0), ([1], 0)]
          \<lparr>world = scenario_world, trimmer = new_trimmer 0, seen_one_overlap = False,
           piece_at_border = None\<rparr> of
      Inl e \<Rightarrow> False
    | Inr s \<Rightarrow>
        piece_at_border s = Some 0
      \<and> group_branch 1 True (world s) [2] = Downstream
      \<and> (case handle_group 1 True ([2], 0) s of
            Inl e \<Rightarrow> False
          | Inr s' \<Rightarrow> piece_swaps (world s') = [(Some 0, Some 2, Some 2)]))
   \<and> next_piece scenario_world = 2
   \<and> (case modify4new_slice 1 True [([0], 0), ([1], 0), ([2], 0)] (scenario_world, new_trimmer 0) of
         Inl e \<Rightarrow> False
       | Inr r \<Rightarrow> next_piece (fst r) \<le> 3)"
proof -
  have "\<exists>s. walk 1 True [([0], 0), ([1], 0)]
          \<lparr>world = scenario_world, trimmer = new_trimmer 0, seen_one_overlap = False,
           piece_at_border = None\<rparr> = Inr s
        \<and> piece_at_border s = Some 0 \<and> group_branch 1 True (world s) [2] = Downstream
        \<and> cached_downstream_piece (trimmer s) = Some 2 \<and> piece_swaps (world s) = []
        \<and> piece_id (pieces (world s) 0) = Some 0 \<and> piece_id (pieces (world s) 2) = Some 2
        \<and> feature_id (features (world s) 2) = Some 2"
    by (simp add: run_defs scenario_defs)
  then obtain s where wk: "walk 1 True [([0], 0), ([1], 0)]
          \<lparr>world = scenario_world, trimmer = new_trimmer 0, seen_one_overlap = False,
           piece_at_border = None\<rparr> = Inr s"
    and pab: "piece_at_border s = Some 0"
    and br: "group_branch 1 True (world s) [2] = Downstream"
    and ca: "cached_downstream_piece (trimmer s) = Some 2"
    and q: "piece_swaps (world s) = []"
    and ids: "piece_id (pieces (world s) 0) = Some 0" "piece_id (pieces (world s) 2) = Some 2"
      "feature_id (features (world s) 2) = Some 2"
    by blast
  note t = downstream_group_piece_swaps
    [where fs = "[2]" and nc = 1 and is_plus = True and s = s and border = 0 and piece = 0
       and t = "trimmer s" and d = 2 and w = "world s"]
  from t ca have dp: "downstream_piece (world s, trimmer s) 0 = ((world s, trimmer s), 2)"
    by blast
  from t pab br have "handle_group 1 True ([2], 0) s =
        Inr (if (0::nat) = 0
             then (let r = downstream_piece (world s, trimmer s) 0; w1 = fst (fst r)
                   in s\<lparr>world := w1\<lparr>piece_swaps := piece_swaps w1 @
                             map (\<lambda>f. (piece_id (pieces w1 0), piece_id (pieces w1 (snd r)),
                                        feature_id (features w1 f))) [2]\<rparr>,
                         trimmer := snd (fst r)\<rparr>)
             else s)"
    by blast
  then have hg: "handle_group 1 True ([2], 0) s =
      Inr (s\<lparr>world := (world s)\<lparr>piece_swaps := [(Some 0, Some 2, Some 2)]\<rparr>\<rparr>)"
    by (simp add: dp q ids)
  have "\<exists>r. modify4new_slice 1 True [([0], 0), ([1], 0), ([2], 0)]
               (scenario_world, new_trimmer 0) = Inr r"
    by (simp add: run_defs scenario_defs)
  then obtain w' t' where
    ret: "modify4new_slice 1 True [([0], 0), ([1], 0), ([2], 0)]
            (scenario_world, new_trimmer 0) = Inr (w', t')"
    by auto
  have n: "next_piece scenario_world = 2" by (simp add: scenario_defs)
  from downstream_group_piece_swaps
    [where nc = 1 and is_plus = True and gs = "[([0], 0), ([1], 0), ([2], 0)]"
       and w = scenario_world and t = "new_trimmer 0" and w' = w' and t' = t'] ret
  have "next_piece w' \<le> Suc (next_piece scenario_world)" by blast
  then have once: "next_piece w' \<le> 3" by (simp add: n)
  show ?thesis
    unfolding wk ret sum.case hg using pab br n once by simp
qed

lemma walk_append:
  "walk nc is_plus (pre @ post) s =
     (case walk nc is_plus pre s of Inl e \<Rightarrow> Inl e | Inr s1 \<Rightarrow> walk nc is_plus post s1)"
  by (induction pre arbitrary: s) (auto split: sum.splits)



lemma branch_taken_contained:
  assumes "\<not> is_detached cs p"
    and "coord_start (slice_coordinates p) \<le> feature_py_start p"
    and "feature_py_start p < feature_py_end p"
    and "feature_py_end p \<le> coord_end (slice_coordinates p)"
  shows "branch_taken cs p = Contained"
  using assms unfolding branch_taken_def fvc_defs Let_def by auto

lemma within_slice_contained:
  assumes "within_slice nc is_plus w (hd fs)"
  shows "group_branch nc is_plus w fs = Contained"
proof -
  let ?p = "mk_FeatureVsCoords (features w (hd fs)) (coordinates w nc) is_plus"
  have sc: "slice_coordinates ?p = coordinates w nc"
    by (simp add: mk_FeatureVsCoords_def)
  show ?thesis
    unfolding group_branch_def
    using assms by (intro branch_taken_contained) (simp_all add: within_slice_def Let_def sc)
qed

lemma piece_features_cong:
  "features w1 = features w2 \<Longrightarrow> next_feature w1 = next_feature w2 \<Longrightarrow>
   piece_features w1 = piece_features w2"
  by (simp add: piece_features_def fun_eq_iff)

lemma walk_all_contained:
  assumes "\<forall>g\<in>set gs. fst g \<noteq> [] \<and> group_branch nc is_plus (world s) (fst g) = Contained"
  shows "walk nc is_plus gs s =
     Inr (s\<lparr>world := (world s)\<lparr>coord_swaps := coord_swaps (world s)
                @ concat (map (\<lambda>g. map (\<lambda>f. (feature_id (features (world s) f), nc)) (fst g)) gs)\<rparr>,
            seen_one_overlap := (seen_one_overlap s \<or> gs \<noteq> [])\<rparr>)"
  using assms
proof (induction gs arbitrary: s)
  case Nil
  then show ?case by simp
next
  case (Cons g gs)
  obtain fs piece where g: "g = (fs, piece)" by (cases g)
  from Cons.prems g have ne: "fs \<noteq> []" and c: "group_branch nc is_plus (world s) fs = Contained"
    by auto
  let ?s1 = "s\<lparr>world := (world s)\<lparr>coord_swaps := coord_swaps (world s) @
                 map (\<lambda>f. (feature_id (features (world s) f), nc)) fs\<rparr>,
            seen_one_overlap := True\<rparr>"
  have h: "handle_group nc is_plus g s = Inr ?s1"
    unfolding g by (rule handle_group_contained [OF ne c])
  have br: "group_branch nc is_plus (world ?s1) fs' = group_branch nc is_plus (world s) fs'" for fs'
    by (simp add: group_branch_def)
  have p1: "\<forall>g\<in>set gs. fst g \<noteq> [] \<and> group_branch nc is_plus (world ?s1) (fst g) = Contained"
    using Cons.prems unfolding br by simp
  show ?case
    unfolding walk.simps h sum.case Cons.IH [OF p1]
    by (simp add: g)
qed

text \<open>
  C9. When the first feature of every group lies within the slice (same sequence
  and strand, positive length, adjusted interval inside \<open>[start, end)\<close>) and there is
  at least one group, the call succeeds, every group is taken as contained, and the
  store is as before except for the coordinate swaps appended to the queue: no
  feature and no piece is created or changed, so the multiset of \<open>(start, end)\<close> of
  the transcript's features is the same before and after.
\<close>

theorem full_span_is_noop:
  assumes "gs \<noteq> []"
    and "\<forall>g\<in>set gs. fst g \<noteq> [] \<and> within_slice nc is_plus w (hd (fst g))"
  shows "(let w' = w\<lparr>coord_swaps := coord_swaps w
                    @ concat (map (\<lambda>g. map (\<lambda>f. (feature_id (features w f), nc)) (fst g)) gs)\<rparr>
          in modify4new_slice nc is_plus gs (w, t)
               = Inr (w', t\<lparr>cached_downstream_piece := None\<rparr>)
           \<and> (\<forall>g\<in>set gs. group_branch nc is_plus w (fst g) = Contained)
           \<and> features w' = features w \<and> next_feature w' = next_feature w
           \<and> pieces w' = pieces w \<and> next_piece w' = next_piece w
           \<and> transcript_pieces w' = transcript_pieces w
           \<and> transcript_intervals w' (transcript t) = transcript_intervals w (transcript t))"
proof -
  have c: "\<forall>g\<in>set gs. group_branch nc is_plus w (fst g) = Contained"
    using assms(2) within_slice_contained by blast
  let ?s0 = "\<lparr>world = w, trimmer = t, seen_one_overlap = False, piece_at_border = None\<rparr>"
  have "\<forall>g\<in>set gs. fst g \<noteq> [] \<and> group_branch nc is_plus (world ?s0) (fst g) = Contained"
    using assms(2) c by simp
  note wk = walk_all_contained [OF this]
  have r: "modify4new_slice nc is_plus gs (w, t) =
           Inr (w\<lparr>coord_swaps := coord_swaps w
                    @ concat (map (\<lambda>g. map (\<lambda>f. (feature_id (features w f), nc)) (fst g)) gs)\<rparr>,
                t\<lparr>cached_downstream_piece := None\<rparr>)"
    using assms(1) by (simp add: modify4new_slice_def wk)
  let ?w' = "w\<lparr>coord_swaps := coord_swaps w
                    @ concat (map (\<lambda>g. map (\<lambda>f. (feature_id (features w f), nc)) (fst g)) gs)\<rparr>"
  have pf: "piece_features ?w' = piece_features w"
    by (rule piece_features_cong) simp_all
  have iv: "transcript_intervals ?w' (transcript t) = transcript_intervals w (transcript t)"
    by (simp add: transcript_intervals_def transcript_features_def pf)
  show ?thesis
    unfolding Let_def r using c iv by simp
qed

text \<open>The theorem at the scenario's transcript against the whole sequence \<open>[0, 1000)\<close>.\<close>

theorem full_span_is_noop_witness:
  "within_slice 1 True full_span_world 0 \<and> within_slice 1 True full_span_world 1
   \<and> within_slice 1 True full_span_world 2
   \<and> modify4new_slice 1 True [([0], 0), ([1], 0), ([2], 0)] (full_span_world, new_trimmer 0)
       = Inr (full_span_world\<lparr>coord_swaps := [(Some 0, 1), (Some 1, 1), (Some 2, 1)]\<rparr>,
              new_trimmer 0)
   \<and> transcript_intervals full_span_world 0 = {#(100, 200), (200, 500), (500, 800)#}"
proof -
  have i: "within_slice 1 True full_span_world 0 \<and> within_slice 1 True full_span_world 1
     \<and> within_slice 1 True full_span_world 2"
    by (simp add: within_slice_def full_span_world_def example_defs mk_FeatureVsCoords_def
        fvc_defs Let_def)
  have h: "\<forall>g\<in>set [([0], 0), ([1], 0), ([2::nat], 0::nat)].
             fst g \<noteq> [] \<and> within_slice 1 True full_span_world (hd (fst g))"
    using i by simp
  have ne: "[([0], 0), ([1], 0), ([2::nat], 0::nat)] \<noteq> []" by simp
  have iv: "transcript_intervals full_span_world 0 = {#(100, 200), (200, 500), (500, 800)#}"
    by (simp add: transcript_intervals_def transcript_features_def piece_features_def
        full_span_world_def example_defs upt_rec)
  show ?thesis
    using full_span_is_noop [OF ne h, of "new_trimmer 0"] i iv
    by (simp add: Let_def full_span_world_def example_defs new_trimmer_def)
qed



section \<open>The error of an empty slice, and contained features\<close>

lemma load_to_intervaltree_error:
  "load_to_intervaltree w k = Inl (e, w') \<Longrightarrow> e = ValueError"
  by (auto simp: load_to_intervaltree_def Let_def split: if_splits)

lemma set_status_downstream_border_error:
  "set_status_downstream_border nc oc is_plus tf np op w = Inl (e, w') \<Longrightarrow>
   e = AssertionError \<or> e = ValueError"
  by (auto simp: set_status_downstream_border_def Let_def
      dest: load_to_intervaltree_error split: if_splits option.splits sum.splits)

lemma split_at_border_error:
  "split_at_border nc oc is_plus np op fs w = Inl (e, w') \<Longrightarrow>
   e = AssertionError \<or> e = ValueError"
proof (induction fs arbitrary: w)
  case Nil
  then show ?case by simp
next
  case (Cons f rest)
  then show ?case
    by (auto dest: set_status_downstream_border_error split: sum.splits)
qed

lemma handle_group_error:
  "handle_group nc is_plus g s = Inl (e, w') \<Longrightarrow> e \<noteq> NoFeaturesInSliceError"
  by (auto simp: handle_group_def Let_def simp del: split_at_border.simps
      dest: split_at_border_error
      split: list.splits branch.splits sum.splits option.splits if_splits)

lemma walk_error:
  "walk nc is_plus gs s = Inl (e, w') \<Longrightarrow> e \<noteq> NoFeaturesInSliceError"
proof (induction gs arbitrary: s)
  case Nil
  then show ?case by simp
next
  case (Cons g gs)
  show ?case
  proof (cases "handle_group nc is_plus g s")
    case (Inl a)
    then show ?thesis using Cons.prems handle_group_error [of nc is_plus g s e w'] by auto
  next
    case (Inr s1)
    then show ?thesis using Cons by simp
  qed
qed

lemma handle_group_seen:
  assumes "handle_group nc is_plus g s = Inr s'" and "seen_one_overlap s"
  shows "seen_one_overlap s'"
  using assms
  by (auto simp: handle_group_def Let_def simp del: split_at_border.simps
      split: list.splits branch.splits sum.splits option.splits if_splits)

lemma walk_seen:
  "walk nc is_plus gs s = Inr s' \<Longrightarrow> seen_one_overlap s \<Longrightarrow> seen_one_overlap s'"
proof (induction gs arbitrary: s)
  case Nil
  then show ?case by simp
next
  case (Cons g gs)
  from Cons.prems(1) obtain s1 where s1: "handle_group nc is_plus g s = Inr s1"
    and rest: "walk nc is_plus gs s1 = Inr s'"
    by (auto split: sum.splits)
  show ?case by (rule Cons.IH [OF rest handle_group_seen [OF s1 Cons.prems(2)]])
qed

lemma handle_group_passed_over:
  assumes "passed_over nc is_plus (world s) g" and "piece_at_border s = None"
  shows "handle_group nc is_plus g s = Inr s"
proof -
  obtain fs piece where g: "g = (fs, piece)" by (cases g)
  show ?thesis
    using assms handle_group_skipped [of fs nc is_plus s piece]
      handle_group_downstream [of fs nc is_plus s piece]
    by (auto simp: g passed_over_def)
qed

lemma handle_group_unseen:
  assumes ok: "handle_group nc is_plus g s = Inr s'" and "\<not> seen_one_overlap s'"
    and "piece_at_border s = None"
  shows "passed_over nc is_plus (world s) g \<and> s' = s"
proof -
  obtain fs piece where g: "g = (fs, piece)" by (cases g)
  from ok g have ne: "fs \<noteq> []" by (auto simp: handle_group_def)
  have p: "passed_over nc is_plus (world s) g"
  proof (cases "group_branch nc is_plus (world s) fs")
    case Contained
    then show ?thesis
      using ok [unfolded g handle_group_contained [OF ne Contained]] assms(2) by auto
  next
    case OverlapsDownstream
    then show ?thesis
      using handle_group_border(4) [OF OverlapsDownstream ok [unfolded g]] assms(2) by simp
  next
    case Unclassifiable
    then show ?thesis using ok g ne by (simp add: handle_group_errors)
  qed (simp_all add: passed_over_def g ne)
  with handle_group_passed_over [OF p assms(3)] ok show ?thesis by simp
qed

lemma walk_passed_over:
  assumes "\<forall>g\<in>set gs. passed_over nc is_plus (world s) g" and "piece_at_border s = None"
  shows "walk nc is_plus gs s = Inr s"
  using assms
  by (induction gs) (simp_all add: handle_group_passed_over)

lemma walk_unseen:
  assumes "walk nc is_plus gs s = Inr s'" and "\<not> seen_one_overlap s'"
    and "piece_at_border s = None"
  shows "(\<forall>g\<in>set gs. passed_over nc is_plus (world s) g) \<and> s' = s"
  using assms
proof (induction gs arbitrary: s)
  case Nil
  then show ?case by simp
next
  case (Cons g gs)
  from Cons.prems(1) obtain s1 where s1: "handle_group nc is_plus g s = Inr s1"
    and rest: "walk nc is_plus gs s1 = Inr s'"
    by (auto split: sum.splits)
  have "\<not> seen_one_overlap s1"
    using walk_seen [OF rest] Cons.prems(2) by blast
  from handle_group_unseen [OF s1 this Cons.prems(3)]
  have p: "passed_over nc is_plus (world s) g" and e: "s1 = s" by simp_all
  show ?case
    using Cons.IH [OF rest [unfolded e] Cons.prems(2,3)] p by simp
qed

text \<open>
  C2, as the code has it. \<open>modify4new_slice\<close> raises \<open>NoFeaturesInSliceError\<close> exactly
  when every group of the walk is non-empty and is taken as detached, upstream,
  overlaps_upstream or downstream, that is when the walk completes and no group is
  taken as contained or overlaps_downstream; the store is then as it was. A group
  that overlaps the upstream end of the slice does not count as seen. The caller
  \<open>modify4slice\<close> then runs its check on the features of the transcript's pieces
  and goes on to the next transcript when no assertion fails; otherwise the
  \<open>AssertionError\<close> leaves the call.
\<close>

theorem no_features_in_slice_iff:
  "(modify4new_slice nc is_plus gs (w, t) = Inl (NoFeaturesInSliceError, w')
     \<longleftrightarrow> w' = w \<and> (\<forall>g\<in>set gs. passed_over nc is_plus w g))
   \<and> ((\<forall>g\<in>set (transition_5p_to_3p w transcribed_key). passed_over nc is_plus w g) \<longrightarrow>
        modify4slice transition_5p_to_3p nc is_plus (transcribed_key # rest) w =
          (if no_overlap_check nc is_plus w transcribed_key
           then modify4slice transition_5p_to_3p nc is_plus rest w
           else Inl (AssertionError, w)))"
proof -
  let ?s0 = "\<lparr>world = w, trimmer = t, seen_one_overlap = False, piece_at_border = None\<rparr>"
  have bwd: "modify4new_slice nc is_plus hs (w, u) = Inl (NoFeaturesInSliceError, w)"
    if "\<forall>g\<in>set hs. passed_over nc is_plus w g" for hs u
  proof -
    have "walk nc is_plus hs
            \<lparr>world = w, trimmer = u, seen_one_overlap = False, piece_at_border = None\<rparr>
          = Inr \<lparr>world = w, trimmer = u, seen_one_overlap = False, piece_at_border = None\<rparr>"
      using that by (intro walk_passed_over) simp_all
    then show ?thesis by (simp add: modify4new_slice_def)
  qed
  have forth: "w' = w \<and> (\<forall>g\<in>set gs. passed_over nc is_plus w g)"
    if err: "modify4new_slice nc is_plus gs (w, t) = Inl (NoFeaturesInSliceError, w')"
  proof (cases "walk nc is_plus gs ?s0")
    case (Inl a)
    then show ?thesis
      using err walk_error [of nc is_plus gs ?s0 "fst a" "snd a"]
      by (simp add: modify4new_slice_def)
  next
    case (Inr s)
    with err have u: "\<not> seen_one_overlap s" and w': "w' = world s"
      by (auto simp: modify4new_slice_def split: if_splits)
    from walk_unseen [OF Inr u] show ?thesis by (simp add: w')
  qed
  have caller: "modify4slice transition_5p_to_3p nc is_plus (transcribed_key # rest) w =
          (if no_overlap_check nc is_plus w transcribed_key
           then modify4slice transition_5p_to_3p nc is_plus rest w
           else Inl (AssertionError, w))"
    if "\<forall>g\<in>set (transition_5p_to_3p w transcribed_key). passed_over nc is_plus w g"
    using bwd [OF that, of "new_trimmer transcribed_key"] by simp
  show ?thesis using bwd [of gs t] forth caller by blast
qed

text \<open>
  C2 as stated fails: the only feature \<open>[5, 15)\<close> of a transcript overlaps the
  upstream end of the slice \<open>[10, 20)\<close> and is classified so, yet the call raises
  \<open>NoFeaturesInSliceError\<close>, and the caller's check passes.
\<close>

theorem upstream_overlap_raises:
  "overlaps_upstream (mk_FeatureVsCoords (plus_feature 0 5 15) slice_10_20 True)
   \<and> group_branch 1 True upstream_overlap_world [0] = OverlapsUpstream
   \<and> modify4new_slice 1 True [([0], 0)] (upstream_overlap_world, new_trimmer 0)
       = Inl (NoFeaturesInSliceError, upstream_overlap_world)
   \<and> modify4slice (\<lambda>w k. [([0], 0)]) 1 True [0] upstream_overlap_world
       = Inr upstream_overlap_world"
  by (simp add: run_defs upstream_overlap_world_def example_defs no_overlap_check_def
      piece_features_def)

text \<open>The theorem for C2 at a transcript \<open>[100, 200)\<close> beyond the slice \<open>[10, 20)\<close>.\<close>

theorem no_features_in_slice_iff_witness:
  "passed_over 1 True beyond_slice_world ([0], 0)
   \<and> modify4new_slice 1 True [([0], 0)] (beyond_slice_world, new_trimmer 0)
       = Inl (NoFeaturesInSliceError, beyond_slice_world)
   \<and> no_overlap_check 1 True beyond_slice_world 0
   \<and> modify4slice (\<lambda>w k. [([0], 0)]) 1 True [0] beyond_slice_world = Inr beyond_slice_world"
proof -
  have p: "passed_over 1 True beyond_slice_world ([0], 0)"
    by (simp add: passed_over_def run_defs beyond_slice_world_def example_defs)
  have c: "no_overlap_check 1 True beyond_slice_world 0"
    by (simp add: no_overlap_check_def piece_features_def beyond_slice_world_def example_defs)
  note t = no_features_in_slice_iff
    [where nc = 1 and is_plus = True and gs = "[([0], 0)]" and w = beyond_slice_world
       and t = "new_trimmer 0" and w' = beyond_slice_world
       and transition_5p_to_3p = "\<lambda>w k. [([0], 0)]" and transcribed_key = 0 and rest = "[]"]
  from t p have a: "modify4new_slice 1 True [([0], 0)] (beyond_slice_world, new_trimmer 0)
       = Inl (NoFeaturesInSliceError, beyond_slice_world)"
    by simp
  from t p c have b: "modify4slice (\<lambda>w k. [([0], 0)]) 1 True [0] beyond_slice_world
      = Inr beyond_slice_world"
    by simp
  show ?thesis using p a b c by simp
qed

lemma apply_coord_swap_row: "features (apply_coord_swap r w) k = coord_swap_row k r (features w k)"
  by (auto simp: apply_coord_swap_def coord_swap_row_def split: prod.splits option.splits)

lemma apply_piece_swap_row: "features (apply_piece_swap r w) k = piece_swap_row k r (features w k)"
  by (auto simp: apply_piece_swap_def piece_swap_row_def split: prod.splits option.splits)

lemma fold_coord_swap_row:
  "features (fold apply_coord_swap q w) k = fold (coord_swap_row k) q (features w k)"
  by (induction q arbitrary: w) (simp_all add: apply_coord_swap_row)

lemma fold_piece_swap_row:
  "features (fold apply_piece_swap q w) k = fold (piece_swap_row k) q (features w k)"
  by (induction q arbitrary: w) (simp_all add: apply_piece_swap_row)

lemma execute_so_far_row: "features (execute_so_far w) k = flushed_row w k"
  by (simp add: execute_so_far_def flushed_row_def fold_piece_swap_row fold_coord_swap_row
      fold_coord_swap_frame)

lemma fold_coord_swap_row_skip:
  "\<forall>r\<in>set q. fst r \<noteq> Some k \<Longrightarrow> fold (coord_swap_row k) q f = f"
  by (induction q arbitrary: f) (simp_all add: coord_swap_row_def)

lemma fold_piece_swap_row_skip:
  "\<forall>r\<in>set q. snd (snd r) \<noteq> Some k \<Longrightarrow> fold (piece_swap_row k) q f = f"
  by (induction q arbitrary: f)
     (auto simp: piece_swap_row_def split: prod.splits option.splits)

lemma fold_coord_swap_row_same:
  "\<forall>r\<in>set q. snd r = c \<Longrightarrow>
   fold (coord_swap_row k) q (f\<lparr>coordinate := c\<rparr>) = f\<lparr>coordinate := c\<rparr>"
  by (induction q arbitrary: f) (simp_all add: coord_swap_row_def)

lemma fold_coord_swap_row_hit:
  "\<forall>r\<in>set q. snd r = c \<Longrightarrow> \<exists>r\<in>set q. fst r = Some k \<Longrightarrow>
   fold (coord_swap_row k) q f = f\<lparr>coordinate := c\<rparr>"
proof (induction q arbitrary: f)
  case Nil
  then show ?case by simp
next
  case (Cons r q)
  show ?case
  proof (cases "fst r = Some k")
    case True
    then have "coord_swap_row k r f = f\<lparr>coordinate := c\<rparr>"
      using Cons.prems(1) by (simp add: coord_swap_row_def)
    then show ?thesis
      using Cons.prems(1) fold_coord_swap_row_same [of q c k f] by simp
  next
    case False
    then have "coord_swap_row k r f = f" by (simp add: coord_swap_row_def)
    then show ?thesis using Cons False by simp
  qed
qed

lemma piece_swap_row_coordinate:
  "piece_swap_row k r (f\<lparr>coordinate := c\<rparr>) = (piece_swap_row k r f)\<lparr>coordinate := c\<rparr>"
  by (simp add: piece_swap_row_def split: prod.splits option.splits)

lemma fold_piece_swap_row_coordinate:
  "fold (piece_swap_row k) q (f\<lparr>coordinate := c\<rparr>) = (fold (piece_swap_row k) q f)\<lparr>coordinate := c\<rparr>"
  by (induction q arbitrary: f) (simp_all add: piece_swap_row_coordinate)

lemma flushed_row_cong:
  "features w1 k = features w2 k \<Longrightarrow> coord_swaps w1 = coord_swaps w2 \<Longrightarrow>
   piece_swaps w1 = piece_swaps w2 \<Longrightarrow> flushed_row w1 k = flushed_row w2 k"
  by (simp add: flushed_row_def)

lemma flushed_row_empty:
  "coord_swaps w = [] \<Longrightarrow> piece_swaps w = [] \<Longrightarrow> flushed_row w k = features w k"
  by (simp add: flushed_row_def)

lemma same_but_links_sym: "same_but_links f g \<Longrightarrow> same_but_links g f"
  by (simp add: same_but_links_def)

lemma set_status_downstream_border_rows:
  assumes "set_status_downstream_border nc oc is_plus tf np op w = Inr w'"
  shows "k \<noteq> tf \<Longrightarrow> k \<noteq> next_feature w \<Longrightarrow> features w' k = features w k"
    and "feature_id (features w' j) =
           (if j = next_feature w then Some j else feature_id (features w j))"
  using assms
  by (auto simp: set_status_downstream_border_def new_handled_data_def Let_def commit_feature_def
      dest!: load_to_intervaltree_frame split: if_splits option.splits sum.splits)

lemma split_at_border_rows:
  assumes "split_at_border nc oc is_plus np op fs w = Inr w'"
  shows "(k \<notin> set fs \<and> k < next_feature w \<longrightarrow> features w' k = features w k)
    \<and> feature_id (features w' j) =
         (if next_feature w \<le> j \<and> j < next_feature w' then Some j
          else feature_id (features w j))"
  using assms
proof (induction fs arbitrary: w)
  case Nil
  then show ?case by auto
next
  case (Cons f rest)
  from Cons.prems obtain w1 where
    w1: "set_status_downstream_border nc oc is_plus f np op w = Inr w1"
    and rest: "split_at_border nc oc is_plus np op rest w1 = Inr w'"
    by (auto split: sum.splits)
  note r = set_status_downstream_border_rows [OF w1]
  have n1: "next_feature w1 = Suc (next_feature w)"
    using set_status_downstream_border_frame [OF w1] by simp
  have n': "next_feature w' = next_feature w1 + length rest"
    using split_at_border_frame [OF rest] by simp
  show ?case
    using Cons.IH [OF rest] r(1) [of k] r(2) [of j] n1 n'
    by (auto split: if_splits)
qed

lemma handle_group_other_row:
  assumes ok: "handle_group nc is_plus g s = Inr s'"
    and k: "k \<notin> set (fst g)"
    and own: "own_id k (world s)"
  shows "flushed_row (world s') k = flushed_row (world s) k \<and> own_id k (world s')"
proof -
  obtain fs piece where g: "g = (fs, piece)" by (cases g)
  from ok g have ne: "fs \<noteq> []" by (auto simp: handle_group_def)
  from k g have kf: "k \<notin> set fs" by simp
  have skipid: "feature_id (features (world s) f) \<noteq> Some k" if "f \<in> set fs" for f
    using that kf own by (auto simp: own_id_def)
  show ?thesis
  proof (cases "group_branch nc is_plus (world s) fs")
    case Contained
    let ?new = "map (\<lambda>f. (feature_id (features (world s) f), nc)) fs"
    have s': "s' = s\<lparr>world := (world s)\<lparr>coord_swaps := coord_swaps (world s) @ ?new\<rparr>,
                    seen_one_overlap := True\<rparr>"
      using ok [unfolded g handle_group_contained [OF ne Contained]] by simp
    have "\<forall>r\<in>set ?new. fst r \<noteq> Some k" using skipid by auto
    then have "flushed_row (world s') k = flushed_row (world s) k"
      by (simp add: s' flushed_row_def fold_coord_swap_row_skip)
    moreover have "own_id k (world s')"
      using own by (simp add: s' own_id_def)
    ultimately show ?thesis by simp
  next
    case Downstream
    show ?thesis
    proof (cases "piece_at_border s = Some piece")
      case True
      let ?r = "downstream_piece (world s, trimmer s) piece"
      let ?w1 = "fst (fst ?r)"
      let ?new = "map (\<lambda>f. (piece_id (pieces ?w1 piece), piece_id (pieces ?w1 (snd ?r)),
                            feature_id (features ?w1 f))) fs"
      note fr = downstream_piece_frame [of "world s" "trimmer s" piece]
      have s': "world s' = ?w1\<lparr>piece_swaps := piece_swaps ?w1 @ ?new\<rparr>"
        using ok [unfolded g handle_group_downstream [OF ne Downstream]] True
        by (auto simp: Let_def)
      have "\<forall>r\<in>set ?new. snd (snd r) \<noteq> Some k" using skipid fr by auto
      then have "flushed_row (world s') k = flushed_row (world s) k"
        using fr by (simp add: s' flushed_row_def fold_piece_swap_row_skip)
      moreover have "own_id k (world s')"
        using own fr by (simp add: s' own_id_def)
      ultimately show ?thesis by simp
    next
      case False
      then show ?thesis
        using ok [unfolded g handle_group_downstream [OF ne Downstream]] own by simp
    qed
  next
    case OverlapsDownstream
    let ?r = "downstream_piece (world s, trimmer s) piece"
    let ?w1 = "execute_so_far (fst (fst ?r))"
    note hb = handle_group_border [OF OverlapsDownstream ok [unfolded g]]
    note fr = downstream_piece_frame [of "world s" "trimmer s" piece]
    note sp = split_at_border_rows [OF hb(2)]
    note sf = split_at_border_frame [OF hb(2)]
    have n1: "next_feature ?w1 = next_feature (world s)"
      using fr by (simp add: execute_so_far_frame)
    have kn: "k < next_feature (world s)" using own by (simp add: own_id_def)
    have "features (world s') k = features ?w1 k"
      using sp [of k] kf kn n1 by simp
    also have "\<dots> = flushed_row (fst (fst ?r)) k" by (rule execute_so_far_row)
    also have "\<dots> = flushed_row (world s) k"
      using fr by (intro flushed_row_cong) simp_all
    finally have row: "features (world s') k = flushed_row (world s) k" .
    have empty: "coord_swaps (world s') = []" "piece_swaps (world s') = []"
      using sf by (simp_all add: execute_so_far_frame)
    have ids1: "feature_id (features ?w1 j) = feature_id (features (world s) j)" for j
      using execute_so_far_links [of "fst (fst ?r)" j] fr by (simp add: same_but_links_def)
    have ids: "feature_id (features (world s') j) =
         (if next_feature (world s) \<le> j \<and> j < next_feature (world s') then Some j
          else feature_id (features (world s) j))" for j
      using sp [of k j] by (simp add: n1 ids1)
    have "own_id k (world s')"
      using own sf n1 ids by (auto simp: own_id_def)
    then show ?thesis
      using row empty by (simp add: flushed_row_empty)
  next
    case Unclassifiable
    then show ?thesis using ok g ne by (simp add: handle_group_errors)
  qed (use ok g ne own handle_group_skipped [of fs nc is_plus s piece] in auto)
qed

lemma walk_other_row:
  assumes "walk nc is_plus gs s = Inr s'"
    and "\<forall>g\<in>set gs. k \<notin> set (fst g)"
    and "own_id k (world s)"
  shows "flushed_row (world s') k = flushed_row (world s) k \<and> own_id k (world s')"
  using assms
proof (induction gs arbitrary: s)
  case Nil
  then show ?case by simp
next
  case (Cons g gs)
  from Cons.prems(1) obtain s1 where s1: "handle_group nc is_plus g s = Inr s1"
    and rest: "walk nc is_plus gs s1 = Inr s'"
    by (auto split: sum.splits)
  from Cons.prems(2) have k: "k \<notin> set (fst g)" and ks: "\<forall>g\<in>set gs. k \<notin> set (fst g)"
    by simp_all
  note st = handle_group_other_row [OF s1 k Cons.prems(3)]
  show ?case
    using Cons.IH [OF rest ks] st by simp
qed

lemma handle_group_contained_row:
  assumes c: "group_branch nc is_plus (world s) fs = Contained"
    and ok: "handle_group nc is_plus (fs, piece) s = Inr s'"
    and k: "k \<in> set fs"
    and own: "own_id k (world s)"
  shows "flushed_row (world s') k = (flushed_row (world s) k)\<lparr>coordinate := nc\<rparr>
    \<and> own_id k (world s')"
proof -
  from k have ne: "fs \<noteq> []" by auto
  let ?new = "map (\<lambda>f. (feature_id (features (world s) f), nc)) fs"
  have s': "s' = s\<lparr>world := (world s)\<lparr>coord_swaps := coord_swaps (world s) @ ?new\<rparr>,
                  seen_one_overlap := True\<rparr>"
    using ok [unfolded handle_group_contained [OF ne c]] by simp
  have all: "\<forall>r\<in>set ?new. snd r = nc" by simp
  have hit: "\<exists>r\<in>set ?new. fst r = Some k"
    using k own by (auto simp: own_id_def intro!: bexI [where x = k])
  have "flushed_row (world s') k = (flushed_row (world s) k)\<lparr>coordinate := nc\<rparr>"
    by (simp add: s' flushed_row_def fold_coord_swap_row_hit [OF all hit]
        fold_piece_swap_row_coordinate)
  moreover have "own_id k (world s')" using own by (simp add: s' own_id_def)
  ultimately show ?thesis by simp
qed

text \<open>
  C3, as the code has it. Let a call succeed, let the group \<open>fs\<close> be taken as
  contained when the walk reaches it, and let \<open>k\<close> be a feature of that group that
  is in no other group, an existing committed row with an id of its own. Once the
  queue has been executed after the call, the feature's coordinate is the slice,
  and every other column is what executing the queue before the call would have
  left; start, end and all columns but the coordinate and the pieces are as before
  the call, already when the call returns.
\<close>

theorem contained_feature_after_flush:
  assumes pre: "walk nc is_plus pre
      \<lparr>world = w, trimmer = t, seen_one_overlap = False, piece_at_border = None\<rparr> = Inr s_pre"
    and c: "group_branch nc is_plus (world s_pre) fs = Contained"
    and k: "k \<in> set fs"
    and others: "\<forall>g\<in>set (pre @ post). k \<notin> set (fst g)"
    and own: "own_id k w"
    and ret: "modify4new_slice nc is_plus (pre @ (fs, piece) # post) (w, t) = Inr (w', t')"
  shows "features (execute_so_far w') k = (features (execute_so_far w) k)\<lparr>coordinate := nc\<rparr>
    \<and> coordinate (features (execute_so_far w') k) = nc
    \<and> feature_start (features (execute_so_far w') k) = feature_start (features w k)
    \<and> feature_end (features (execute_so_far w') k) = feature_end (features w k)
    \<and> same_but_links (features (execute_so_far w') k) (features w k)
    \<and> same_but_links (features w' k) (features w k)"
proof -
  let ?s0 = "\<lparr>world = w, trimmer = t, seen_one_overlap = False, piece_at_border = None\<rparr>"
  from modify4new_slice_walk [OF ret] obtain s_end where
    wk: "walk nc is_plus (pre @ (fs, piece) # post) ?s0 = Inr s_end"
    and w': "w' = world s_end" by blast
  from wk pre obtain s_mid where
    mid: "handle_group nc is_plus (fs, piece) s_pre = Inr s_mid"
    and post: "walk nc is_plus post s_mid = Inr s_end"
    by (auto simp: walk_append split: sum.splits)
  from others have o1: "\<forall>g\<in>set pre. k \<notin> set (fst g)" and o2: "\<forall>g\<in>set post. k \<notin> set (fst g)"
    by auto
  have own0: "own_id k (world ?s0)" using own by simp
  note a = walk_other_row [OF pre o1 own0]
  note b = handle_group_contained_row [OF c mid k conjunct2 [OF a]]
  note d = walk_other_row [OF post o2 conjunct2 [OF b]]
  have "flushed_row w' k = (flushed_row w k)\<lparr>coordinate := nc\<rparr>"
    using a b d by (simp add: w')
  then have main: "features (execute_so_far w') k = (features (execute_so_far w) k)\<lparr>coordinate := nc\<rparr>"
    by (simp add: execute_so_far_row)
  have l0: "same_but_links (features (execute_so_far w) k) (features w k)"
    by (rule execute_so_far_links)
  have l1: "same_but_links (features (execute_so_far w') k) (features w k)"
    using l0 by (simp add: main same_but_links_def)
  have l2: "same_but_links (features w' k) (features w k)"
    using same_but_links_trans [OF same_but_links_sym [OF execute_so_far_links [of w' k]] l1] .
  show ?thesis
    using main l1 l2 by (simp add: same_but_links_def)
qed

text \<open>
  C3 as stated fails: when the call on a transcript of one contained feature
  returns, the feature still has its old coordinate; the swap is in the queue.
\<close>

theorem coordinate_swap_not_applied_at_return:
  "group_branch 1 True single_feature_world [0] = Contained
   \<and> coordinate (features single_feature_world 0) = 0
   \<and> (case modify4new_slice 1 True [([0], 0)] (single_feature_world, new_trimmer 0) of
         Inl e \<Rightarrow> False
       | Inr r \<Rightarrow> coordinate (features (fst r) 0) = 0 \<and> coord_swaps (fst r) = [(Some 0, 1)])"
  by (simp add: run_defs single_feature_world_def example_defs)

text \<open>The theorem for C3 at the first feature of the scenario.\<close>

theorem contained_feature_after_flush_witness:
  "group_branch 1 True scenario_world [0] = Contained
   \<and> own_id 0 scenario_world
   \<and> (case modify4new_slice 1 True [([0], 0), ([1], 0), ([2], 0)] (scenario_world, new_trimmer 0) of
         Inl e \<Rightarrow> False
       | Inr r \<Rightarrow>
           coordinate (features (execute_so_far (fst r)) 0) = 1
         \<and> feature_start (features (execute_so_far (fst r)) 0) = 100
         \<and> feature_end (features (execute_so_far (fst r)) 0) = 200)"
proof -
  let ?s0 = "\<lparr>world = scenario_world, trimmer = new_trimmer 0, seen_one_overlap = False,
              piece_at_border = None\<rparr>"
  have pre: "walk 1 True [] ?s0 = Inr ?s0" by simp
  have c: "group_branch 1 True (world ?s0) [0] = Contained"
    by (simp add: run_defs scenario_defs)
  have k: "(0::nat) \<in> set [0]" by simp
  have others: "\<forall>g\<in>set ([] @ [([1], 0), ([2::nat], 0::nat)]). (0::nat) \<notin> set (fst g)" by simp
  have own: "own_id 0 scenario_world"
    by (auto simp: own_id_def scenario_defs nth_Cons' split: if_splits)
  have "\<exists>r. modify4new_slice 1 True ([] @ ([0], 0) # [([1], 0), ([2], 0)])
               (scenario_world, new_trimmer 0) = Inr r"
    by (simp add: run_defs scenario_defs)
  then obtain w' t' where
    ret: "modify4new_slice 1 True ([] @ ([0], 0) # [([1], 0), ([2], 0)])
            (scenario_world, new_trimmer 0) = Inr (w', t')"
    by auto
  have r: "coordinate (features (execute_so_far w') 0) = 1
         \<and> feature_start (features (execute_so_far w') 0) = 100
         \<and> feature_end (features (execute_so_far w') 0) = 200"
  proof -
    have v: "feature_start (features scenario_world 0) = 100"
      "feature_end (features scenario_world 0) = 200"
      by (simp_all add: scenario_defs)
    from contained_feature_after_flush [OF pre c k others own ret]
    have "coordinate (features (execute_so_far w') 0) = 1
      \<and> feature_start (features (execute_so_far w') 0) = feature_start (features scenario_world 0)
      \<and> feature_end (features (execute_so_far w') 0) = feature_end (features scenario_world 0)"
      by blast
    then show ?thesis by (simp only: v)
  qed
  have ret': "modify4new_slice 1 True [([0], 0), ([1], 0), ([2], 0)]
                (scenario_world, new_trimmer 0) = Inr (w', t')"
    using ret by simp
  show ?thesis
    unfolding ret' sum.case using r c own by simp
qed

section \<open>What goes through the queue\<close>









end
